(* ===== verification/Seam_Prelude.thy ===== *)
theory Seam_Prelude
  imports Complex_Main
begin

text \<open>
  Shared vocabulary of the seam-carving development (src/seam.rs): Rust's \<open>uint\<close>
  as \<open>nat\<close> with the 64-bit wrap-around written out where the code decrements or
  increments without a guard; the task failure of an out-of-bounds vector index as an
  \<open>error\<close> value; the sequencing of fallible steps (\<open>rbind\<close>) and of steps that may
  in addition run forever (\<open>pbind\<close>, \<open>None\<close> meaning "does not return");
  \<open>for uint::range(a, b)\<close> loops as folds over \<open>[a..<b]\<close>; Rust's \<open>float\<close> with
  its positive infinity as the datatype \<open>flt\<close>, a linear order and a monoid; and
  list lemmas the component theories share.
\<close>

named_theorems loop_simps "equations of the loop combinators"

section \<open>Machine integers\<close>

text \<open>\<open>uint\<close> is 64 bits wide; \<open>x -= 1\<close> and \<open>x += 1\<close> wrap around.\<close>

definition uint_size :: nat where
  "uint_size = 2 ^ 64"

definition usub1 :: "nat \<Rightarrow> nat" where
  "usub1 n = (if n = 0 then uint_size - 1 else n - 1)"

definition uinc :: "nat \<Rightarrow> nat" where
  "uinc n = (n + 1) mod uint_size"

section \<open>Failures and non-termination\<close>

text \<open>
  \<open>IndexFault\<close> is the task failure of a vector index out of bounds;
  \<open>EmptyVector\<close> the failure of \<open>min\<close> on an empty vector;
  \<open>ParseFault\<close> the failure of \<open>Option::get\<close> on \<open>None\<close> (a number
  that does not parse); \<open>ResultFault\<close> the failure of \<open>Result::get_ref\<close>
  on \<open>Err\<close>; \<open>IoFault\<close> the failure to open a file.
\<close>

datatype error = IndexFault | EmptyVector | ParseFault | ResultFault | IoFault

type_synonym 'a res = "error + 'a"

text \<open>A computation that may also not return: \<open>None\<close> is divergence.\<close>

type_synonym 'a pres = "'a res option"

fun rbind :: "'a res \<Rightarrow> ('a \<Rightarrow> 'b res) \<Rightarrow> 'b res" where
  "rbind (Inl e) f = Inl e"
| "rbind (Inr x) f = f x"

definition pbind :: "'a pres \<Rightarrow> ('a \<Rightarrow> 'b pres) \<Rightarrow> 'b pres" where
  "pbind m f = (case m of None \<Rightarrow> None | Some (Inl e) \<Rightarrow> Some (Inl e) | Some (Inr x) \<Rightarrow> f x)"

lemma pbind_simps [simp]:
  "pbind None f = None"
  "pbind (Some (Inl e)) f = Some (Inl e)"
  "pbind (Some (Inr x)) f = f x"
  by (simp_all add: pbind_def)

lemma pbind_return [simp]: "pbind m (\<lambda>x. Some (Inr x)) = m"
  by (simp add: pbind_def split: option.split sum.split)

text \<open>Rust's bounds-checked vector index \<open>v[i]\<close>.\<close>

definition vec_get :: "'a list \<Rightarrow> nat \<Rightarrow> 'a res" where
  "vec_get xs i = (if i < length xs then Inr (xs ! i) else Inl IndexFault)"

text \<open>\<open>Option::get\<close>.\<close>

definition opt_get :: "'a option \<Rightarrow> 'a res" where
  "opt_get v = (case v of Some x \<Rightarrow> Inr x | None \<Rightarrow> Inl ParseFault)"

lemma opt_get_simps [simp]: "opt_get (Some x) = Inr x" "opt_get None = Inl ParseFault"
  by (simp_all add: opt_get_def)

lemma vec_get_ok [simp]: "i < length xs \<Longrightarrow> vec_get xs i = Inr (xs ! i)"
  by (simp add: vec_get_def)

section \<open>Loops\<close>

text \<open>\<open>for i in xs { body }\<close> over a state; the first failure stops the loop.\<close>

fun forM :: "nat list \<Rightarrow> (nat \<Rightarrow> 's \<Rightarrow> 's res) \<Rightarrow> 's \<Rightarrow> 's res" where
  "forM [] f s = Inr s"
| "forM (i # is) f s = rbind (f i s) (forM is f)"

definition for_range :: "nat \<Rightarrow> nat \<Rightarrow> (nat \<Rightarrow> 's \<Rightarrow> 's res) \<Rightarrow> 's \<Rightarrow> 's res" where
  "for_range a b f s = forM [a..<b] f s"

text \<open>The same loop over a body that may not return.\<close>

fun pforM :: "nat list \<Rightarrow> (nat \<Rightarrow> 's \<Rightarrow> 's pres) \<Rightarrow> 's \<Rightarrow> 's pres" where
  "pforM [] f s = Some (Inr s)"
| "pforM (i # is) f s = pbind (f i s) (pforM is f)"

lemma rbind_assoc [simp]: "rbind (rbind m f) g = rbind m (\<lambda>x. rbind (f x) g)"
  by (cases m) simp_all

lemma pbind_assoc [simp]: "pbind (pbind m f) g = pbind m (\<lambda>x. pbind (f x) g)"
  by (simp add: pbind_def split: option.split sum.split)

lemma rbind_cong [cong]:
  "m = m' \<Longrightarrow> (\<And>x. m' = Inr x \<Longrightarrow> f x = g x) \<Longrightarrow> rbind m f = rbind m' g"
  by (cases m') simp_all

lemma pbind_cong [cong]:
  "m = m' \<Longrightarrow> (\<And>x. m' = Some (Inr x) \<Longrightarrow> f x = g x) \<Longrightarrow> pbind m f = pbind m' g"
  by (simp add: pbind_def split: option.split sum.split)

lemma forM_append [loop_simps]:
  "forM (xs @ ys) f s = rbind (forM xs f s) (forM ys f)"
  by (induction xs arbitrary: s) simp_all

lemma forM_cong:
  "(\<And>x. x \<in> set xs \<Longrightarrow> f x = f' x) \<Longrightarrow> forM xs f st = forM xs f' st"
  by (induction xs arbitrary: st) simp_all

lemma forM_Inr: "(\<And>x st. x \<in> set xs \<Longrightarrow> f x st = Inr st) \<Longrightarrow> forM xs f st = Inr st"
  by (induction xs arbitrary: st) simp_all

text \<open>A loop that appends to an output list.\<close>

lemma forM_append_out:
  "forM xs (\<lambda>i out. Inr (out @ f i)) out = Inr (out @ concat (map f xs))"
  by (induction xs arbitrary: out) simp_all

lemma pforM_append [loop_simps]:
  "pforM (xs @ ys) f s = pbind (pforM xs f s) (pforM ys f)"
  by (induction xs arbitrary: s) simp_all

section \<open>Rust floats with infinity\<close>

text \<open>
  \<open>float\<close> values are modelled by exact reals (rounding is not modelled);
  \<open>float::infinity\<close> is \<open>Infinity\<close>, above every finite value and absorbing
  under addition.
\<close>

datatype flt = Fin real | Infinity

instantiation flt :: linorder
begin

fun less_eq_flt :: "flt \<Rightarrow> flt \<Rightarrow> bool" where
  "less_eq_flt (Fin a) (Fin b) = (a \<le> b)"
| "less_eq_flt _ Infinity = True"
| "less_eq_flt Infinity (Fin _) = False"

fun less_flt :: "flt \<Rightarrow> flt \<Rightarrow> bool" where
  "less_flt (Fin a) (Fin b) = (a < b)"
| "less_flt (Fin _) Infinity = True"
| "less_flt Infinity _ = False"

instance
proof
  fix x y z :: flt
  show "(x < y) = (x \<le> y \<and> \<not> y \<le> x)" by (cases x; cases y) auto
  show "x \<le> x" by (cases x) auto
  show "x \<le> y \<Longrightarrow> y \<le> z \<Longrightarrow> x \<le> z" by (cases x; cases y; cases z) auto
  show "x \<le> y \<Longrightarrow> y \<le> x \<Longrightarrow> x = y" by (cases x; cases y) auto
  show "x \<le> y \<or> y \<le> x" by (cases x; cases y) auto
qed

end

instantiation flt :: "{zero, plus}"
begin

definition zero_flt :: flt where
  "zero_flt = Fin 0"

fun plus_flt :: "flt \<Rightarrow> flt \<Rightarrow> flt" where
  "plus_flt (Fin a) (Fin b) = Fin (a + b)"
| "plus_flt _ _ = Infinity"

instance ..

end

instance flt :: ordered_comm_monoid_add
proof
  fix a b c :: flt
  show "a + b + c = a + (b + c)" by (cases a; cases b; cases c) auto
  show "a + b = b + a" by (cases a; cases b) auto
  show "0 + a = a" by (cases a) (auto simp: zero_flt_def)
  show "a \<le> b \<Longrightarrow> c + a \<le> c + b" by (cases a; cases b; cases c) auto
qed

lemma Fin_0 [simp]: "Fin 0 = 0"
  by (simp add: zero_flt_def)

lemma flt_0_simps [simp]:
  "(0 \<le> Fin a) = (0 \<le> a)" "(0 < Fin a) = (0 < a)" "(Fin a \<le> 0) = (a \<le> 0)"
  "(Fin a < 0) = (a < 0)" "(Fin a = 0) = (a = 0)" "(0::flt) < Infinity" "Infinity \<noteq> 0"
  by (simp_all flip: Fin_0)

lemma flt_Infinity_add [simp]: "Infinity + x = Infinity" "x + Infinity = Infinity"
  by (cases x; simp)+

lemma flt_less_Infinity [simp]: "Fin a < Infinity" "\<not> Infinity < x"
  by (cases x; simp)+

section \<open>Lists laid out row by row\<close>

text \<open>
  A \<open>W \<times> H\<close> grid stored row-major is the concatenation of its rows; the cell
  \<open>(x, y)\<close> sits at position \<open>y * W + x\<close>.
\<close>

definition rows :: "nat \<Rightarrow> nat \<Rightarrow> (nat \<Rightarrow> nat \<Rightarrow> 'a) \<Rightarrow> 'a list" where
  "rows W H f = concat (map (\<lambda>y. map (\<lambda>x. f x y) [0..<W]) [0..<H])"

lemma length_rows [simp]: "length (rows W H f) = W * H"
proof -
  have "length (concat (map (\<lambda>y. map (\<lambda>x. f x y) [0..<W]) [0..<H])) = H * W"
    by (induction H) simp_all
  then show ?thesis by (simp add: rows_def)
qed

lemma rows_0 [simp]: "rows W 0 f = []"
  by (simp add: rows_def)

lemma rows_Suc: "rows W (Suc H) f = rows W H f @ map (\<lambda>x. f x H) [0..<W]"
  by (simp add: rows_def)

lemma row_index_less:
  assumes "x < W" "y < (H::nat)"
  shows "y * W + x < W * H"
proof -
  have "y * W + x < Suc y * W" using assms(1) by simp
  also have "\<dots> \<le> H * W" using assms(2) by (intro mult_le_mono1) simp
  finally show ?thesis by (simp add: mult.commute)
qed

lemma row_index_inj:
  assumes "x < W" "x' < (W::nat)"
  shows "(y * W + x = y' * W + x') \<longleftrightarrow> x = x' \<and> y = y'"
proof
  assume eq: "y * W + x = y' * W + x'"
  have "(y * W + x) mod W = x" "(y' * W + x') mod W = x'" using assms by simp_all
  moreover have "(y * W + x) div W = y" "(y' * W + x') div W = y'" using assms by simp_all
  ultimately show "x = x' \<and> y = y'" using eq by metis
qed simp

lemma nth_rows [simp]:
  assumes "x < W" "y < H"
  shows "rows W H f ! (y * W + x) = f x y"
  using assms
proof (induction H)
  case 0
  then show ?case by simp
next
  case (Suc H)
  show ?case
  proof (cases "y < H")
    case True
    with Suc.prems have "y * W + x < W * H" by (simp add: row_index_less)
    with True Suc show ?thesis by (simp add: rows_Suc nth_append)
  next
    case False
    with Suc.prems have "y = H" by simp
    with \<open>x < W\<close> show ?thesis by (simp add: rows_Suc nth_append mult.commute)
  qed
qed

lemma sum_list_map_zero: "\<forall>x \<in> set xs. f x = (0::'a::monoid_add) \<Longrightarrow> sum_list (map f xs) = 0"
  by (induction xs) simp_all

lemma update_at_drop:
  assumes "j < length S"
  shows "(A @ drop j S)[length A := v] = A @ v # drop (Suc j) S"
  using assms by (simp add: list_update_append Cons_nth_drop_Suc [symmetric])

end
