(* ===== verification/Matrix.thy ===== *)
theory Matrix
  imports Seam_Prelude
begin

text \<open>
  \<open>Matrix<T>\<close> of src/seam.rs (lines 1--16): a flat vector \<open>data\<close> with the
  dimensions \<open>w\<close> and \<open>h\<close>, cell \<open>(x, y)\<close> at index \<open>y*w+x\<close>, computed in
  \<open>uint\<close> and checked against the vector's length by Rust's indexing.
  \<open>matrix_at\<close> and \<open>matrix_set\<close> are \<open>at\<close> and \<open>set\<close>; \<open>new_matrix\<close> is the
  construction \<open>Matrix{data: ~[], w, h}\<close> followed by \<open>data.grow(w*h, v)\<close>
  that every component uses.
  \<open>wf_matrix\<close> is the shape invariant (the vector holds \<open>w*h\<close> cells, and
  \<open>w*h\<close> is a \<open>uint\<close>); \<open>px\<close> reads a well-formed matrix as a function
  and \<open>tabulate\<close> builds one from a function.  \<open>fill\<close> is the nested loop
  \<open>for y in 0..h { for x in 0..w { m.set(x, y, f(x, y)) } }\<close> shared by the
  energy and the cost table; \<open>fill_tabulate\<close> shows that it computes
  \<open>tabulate\<close> when no cell fails.
\<close>

record 'a matrix =
  data :: "'a list"
  w :: nat
  h :: nat

definition idx :: "'a matrix \<Rightarrow> nat \<Rightarrow> nat \<Rightarrow> nat" where
  "idx m x y = (y * w m + x) mod uint_size"

definition matrix_at :: "'a matrix \<Rightarrow> nat \<Rightarrow> nat \<Rightarrow> 'a res" where
  "matrix_at m x y = vec_get (data m) (idx m x y)"

definition matrix_set :: "'a matrix \<Rightarrow> nat \<Rightarrow> nat \<Rightarrow> 'a \<Rightarrow> 'a matrix res" where
  "matrix_set m x y c =
     (let i = idx m x y in
      if i < length (data m) then Inr (m\<lparr>data := (data m)[i := c]\<rparr>) else Inl IndexFault)"

definition width :: "'a matrix \<Rightarrow> nat" where
  "width m = w m"

definition height :: "'a matrix \<Rightarrow> nat" where
  "height m = h m"

definition new_matrix :: "nat \<Rightarrow> nat \<Rightarrow> 'a \<Rightarrow> 'a matrix" where
  "new_matrix W H v = \<lparr>data = replicate ((W * H) mod uint_size) v, w = W, h = H\<rparr>"

definition fill :: "nat \<Rightarrow> nat \<Rightarrow> (nat \<Rightarrow> nat \<Rightarrow> 'a res) \<Rightarrow> 'a matrix \<Rightarrow> 'a matrix res" where
  "fill W H f m0 =
     for_range 0 H (\<lambda>y m. for_range 0 W (\<lambda>x m. rbind (f x y) (matrix_set m x y)) m) m0"

definition wf_matrix :: "'a matrix \<Rightarrow> bool" where
  "wf_matrix m \<longleftrightarrow> length (data m) = w m * h m \<and> w m * h m < uint_size"

definition px :: "'a matrix \<Rightarrow> nat \<Rightarrow> nat \<Rightarrow> 'a" where
  "px m x y = data m ! (y * w m + x)"

definition tabulate :: "nat \<Rightarrow> nat \<Rightarrow> (nat \<Rightarrow> nat \<Rightarrow> 'a) \<Rightarrow> 'a matrix" where
  "tabulate W H f = \<lparr>data = rows W H f, w = W, h = H\<rparr>"

section \<open>Access to a well-formed matrix\<close>

lemma idx_in_range:
  assumes "wf_matrix m" "x < w m" "y < h m"
  shows "idx m x y = y * w m + x" "y * w m + x < length (data m)"
proof -
  have lt: "y * w m + x < w m * h m" using assms(2,3) by (rule row_index_less)
  with assms(1) show "idx m x y = y * w m + x"
    by (simp add: idx_def wf_matrix_def)
  from lt assms(1) show "y * w m + x < length (data m)"
    by (simp add: wf_matrix_def)
qed

lemma matrix_at_ok [simp]:
  "wf_matrix m \<Longrightarrow> x < w m \<Longrightarrow> y < h m \<Longrightarrow> matrix_at m x y = Inr (px m x y)"
  by (simp add: matrix_at_def px_def idx_in_range)

lemma matrix_set_ok [simp]:
  "wf_matrix m \<Longrightarrow> x < w m \<Longrightarrow> y < h m \<Longrightarrow>
   matrix_set m x y c = Inr (m\<lparr>data := (data m)[y * w m + x := c]\<rparr>)"
  by (simp add: matrix_set_def idx_in_range)

lemma wf_new_matrix [simp]: "W * H < uint_size \<Longrightarrow> wf_matrix (new_matrix W H v)"
  by (simp add: new_matrix_def wf_matrix_def)

lemma new_matrix_dims [simp]: "w (new_matrix W H v) = W" "h (new_matrix W H v) = H"
  by (simp_all add: new_matrix_def)

lemma tabulate_dims [simp]: "w (tabulate W H f) = W" "h (tabulate W H f) = H"
  by (simp_all add: tabulate_def)

lemma wf_tabulate [simp]: "W * H < uint_size \<Longrightarrow> wf_matrix (tabulate W H f)"
  by (simp add: tabulate_def wf_matrix_def)

lemma px_tabulate [simp]: "x < W \<Longrightarrow> y < H \<Longrightarrow> px (tabulate W H f) x y = f x y"
  by (simp add: tabulate_def px_def)

lemma tabulate_cong:
  assumes "\<And>x y. x < W \<Longrightarrow> y < H \<Longrightarrow> f x y = f' x y"
  shows "tabulate W H f = tabulate W H f'"
proof -
  have "rows W k f = rows W k f'" if "k \<le> H" for k
    using that by (induction k) (auto simp: rows_Suc assms)
  then show ?thesis by (simp add: tabulate_def)
qed

text \<open>A well-formed matrix is the row-major layout of its cells.\<close>

lemma rows_px:
  assumes "wf_matrix m"
  shows "rows (w m) (h m) (px m) = data m"
proof (rule nth_equalityI)
  show "length (rows (w m) (h m) (px m)) = length (data m)"
    using assms by (simp add: wf_matrix_def)
  fix k assume "k < length (rows (w m) (h m) (px m))"
  then have k: "k < w m * h m" by simp
  then have W: "0 < w m" by (cases "w m") simp_all
  have x: "k mod w m < w m" and y: "k div w m < h m"
    using W k by (simp_all add: less_mult_imp_div_less mult.commute)
  have "rows (w m) (h m) (px m) ! (k div w m * w m + k mod w m) = px m (k mod w m) (k div w m)"
    using x y by (rule nth_rows)
  then show "rows (w m) (h m) (px m) ! k = data m ! k" by (simp add: px_def)
qed

section \<open>The nested fill loop\<close>

text \<open>
  One row: after the columns \<open>[0..<j]\<close> of row \<open>y\<close>, the first \<open>j\<close> cells of
  the row hold the computed values and the rest of the vector is untouched.
\<close>

lemma fill_row:
  assumes wf: "wf_matrix m" and dims: "w m = W" "h m = H" and y: "y < H"
    and split: "data m = P @ S" "length P = y * W"
    and ok: "\<And>x. x < W \<Longrightarrow> f x y = Inr (g x y)"
  shows "j \<le> W \<Longrightarrow> forM [0..<j] (\<lambda>x m. rbind (f x y) (matrix_set m x y)) m
           = Inr (m\<lparr>data := P @ map (\<lambda>x. g x y) [0..<j] @ drop j S\<rparr>)"
proof (induction j)
  case 0
  then show ?case using split by simp
next
  case (Suc j)
  let ?A = "P @ map (\<lambda>x. g x y) [0..<j]"
  let ?m = "m\<lparr>data := ?A @ drop j S\<rparr>"
  have "W \<le> length S"
  proof -
    have "y * W + W \<le> W * H" using y by (metis mult.commute mult_Suc mult_le_mono2 Suc_leI add.commute)
    then show ?thesis using wf dims split by (simp add: wf_matrix_def)
  qed
  with Suc.prems have j: "j < length S" by simp
  have wfm: "wf_matrix ?m" using wf split j by (simp add: wf_matrix_def)
  have "matrix_set ?m j y (g j y) = Inr (?m\<lparr>data := (?A @ drop j S)[length ?A := g j y]\<rparr>)"
    using wfm dims y Suc.prems split by simp
  also have "\<dots> = Inr (m\<lparr>data := ?A @ g j y # drop (Suc j) S\<rparr>)"
    using update_at_drop [OF j, of ?A "g j y"] by simp
  finally show ?case using Suc ok by (simp add: forM_append)
qed

lemma fill_prefix:
  assumes wf: "wf_matrix m" and dims: "w m = W" "h m = H"
    and ok: "\<And>x y. x < W \<Longrightarrow> y < H \<Longrightarrow> f x y = Inr (g x y)"
  shows "k \<le> H \<Longrightarrow>
    forM [0..<k] (\<lambda>y m. forM [0..<W] (\<lambda>x m. rbind (f x y) (matrix_set m x y)) m) m
      = Inr (m\<lparr>data := rows W k g @ drop (k * W) (data m)\<rparr>)"
proof (induction k)
  case 0
  then show ?case by simp
next
  case (Suc k)
  let ?m = "m\<lparr>data := rows W k g @ drop (k * W) (data m)\<rparr>"
  have kW: "k * W \<le> W * H" using Suc.prems by (simp add: mult.commute)
  have wfm: "wf_matrix ?m" using wf dims kW by (simp add: wf_matrix_def)
  have "forM [0..<W] (\<lambda>x m. rbind (f x k) (matrix_set m x k)) ?m
        = Inr (?m\<lparr>data := rows W k g @ map (\<lambda>x. g x k) [0..<W] @ drop W (drop (k * W) (data m))\<rparr>)"
    using Suc.prems by (intro fill_row [OF wfm]) (auto simp: dims ok)
  then show ?case using Suc by (simp add: rows_Suc add.commute forM_append)
qed

lemma fill_tabulate:
  assumes "wf_matrix m" "w m = W" "h m = H"
    and "\<And>x y. x < W \<Longrightarrow> y < H \<Longrightarrow> f x y = Inr (g x y)"
  shows "fill W H f m = Inr (m\<lparr>data := rows W H g\<rparr>)"
proof -
  have "length (data m) = H * W" using assms(1-3) by (simp add: wf_matrix_def mult.commute)
  then show ?thesis
    using fill_prefix [OF assms, where k = H] by (simp add: fill_def for_range_def)
qed

lemma fill_new_matrix:
  assumes "W * H < uint_size"
    and "\<And>x y. x < W \<Longrightarrow> y < H \<Longrightarrow> f x y = Inr (g x y)"
  shows "fill W H f (new_matrix W H v) = Inr (tabulate W H g)"
  using fill_tabulate [of "new_matrix W H v" W H f g] assms
  by (simp add: new_matrix_def tabulate_def wf_matrix_def)

lemma matrix_set_wf:
  "wf_matrix m \<Longrightarrow> wf_matrix (m\<lparr>data := (data m)[i := c]\<rparr>)"
  by (simp add: wf_matrix_def)

lemma idx_next_row: "idx m (x + w m) y = idx m x (Suc y)"
  by (simp add: idx_def algebra_simps)

section \<open>Claims\<close>

text \<open>
  C16: writing a cell of a well-formed matrix and reading a cell back is a
  round trip: \<open>set\<close> succeeds, keeps the shape, and afterwards \<open>at\<close> returns
  the value written at the written cell and the old value at every other cell
  of the grid.
\<close>

theorem matrix_set_at:
  assumes "wf_matrix m" "x < w m" "y < h m" "x' < w m" "y' < h m"
  shows "\<exists>m'. matrix_set m x y v = Inr m' \<and> wf_matrix m' \<and> w m' = w m \<and> h m' = h m
           \<and> matrix_at m' x' y' = (if x' = x \<and> y' = y then Inr v else matrix_at m x' y')"
proof -
  let ?m' = "m\<lparr>data := (data m)[y * w m + x := v]\<rparr>"
  have wf': "wf_matrix ?m'" using assms(1) by (rule matrix_set_wf)
  have lt: "y * w m + x < length (data m)" using assms(1-3) by (rule idx_in_range)
  have "matrix_at ?m' x' y' = Inr (px ?m' x' y')" using wf' assms(4,5) by simp
  also have "\<dots> = (if x' = x \<and> y' = y then Inr v else matrix_at m x' y')"
    using lt assms by (simp add: px_def nth_list_update row_index_inj)
  finally show ?thesis using assms wf' by simp
qed

theorem matrix_set_at_witness:
  "\<exists>m'. matrix_set (new_matrix 2 2 (0::nat)) 1 0 5 = Inr m' \<and> wf_matrix m'
     \<and> w m' = 2 \<and> h m' = 2 \<and> matrix_at m' 1 0 = Inr 5 \<and> matrix_at m' 0 1 = Inr 0"
proof -
  have wf: "wf_matrix (new_matrix 2 2 (0::nat))" by (simp add: uint_size_def)
  have old: "matrix_at (new_matrix 2 2 (0::nat)) 0 1 = Inr 0"
    by (simp add: new_matrix_def matrix_at_def idx_def uint_size_def vec_get_def)
  obtain m' where m': "matrix_set (new_matrix 2 2 (0::nat)) 1 0 5 = Inr m'" "wf_matrix m'"
      "w m' = 2" "h m' = 2" "matrix_at m' 1 0 = Inr 5"
    using matrix_set_at [OF wf, of 1 0 1 0 5] by auto
  moreover have "matrix_at m' 0 1 = Inr 0"
    using matrix_set_at [OF wf, of 1 0 0 1 5] m'(1) old by auto
  ultimately show ?thesis by blast
qed

text \<open>
  C17: \<open>at\<close> checks the flat index against the vector, not the column against
  the width: on a well-formed matrix, reading column \<open>x + w\<close> of row \<open>y\<close>
  does not fault but returns the cell \<open>(x, y + 1)\<close> of the next row
  (spec.md section 4.1 calls an out-of-range column a fatal indexing fault).
\<close>

theorem matrix_at_next_row:
  assumes "wf_matrix m" "x < w m" "Suc y < h m"
  shows "matrix_at m (x + w m) y = Inr (px m x (Suc y))"
proof -
  have "matrix_at m (x + w m) y = matrix_at m x (Suc y)"
    by (simp only: matrix_at_def idx_next_row)
  with assms show ?thesis by simp
qed

theorem matrix_at_next_row_witness:
  "matrix_at (tabulate 2 2 (\<lambda>x y. (x, y))) 2 0 = Inr (0, 1)"
proof -
  have "matrix_at (tabulate 2 2 (\<lambda>x y. (x, y))) (0 + w (tabulate 2 2 (\<lambda>x y. (x, y)))) 0
        = Inr (px (tabulate 2 2 (\<lambda>x y. (x, y))) 0 (Suc 0))"
    by (rule matrix_at_next_row) (simp_all add: uint_size_def)
  then show ?thesis by (simp add: numeral_2_eq_2)
qed

end
