(* ===== verification/Color.thy ===== *)
theory Color
  imports Matrix
begin

text \<open>
  \<open>Color\<close> of src/seam.rs (lines 18--30) as a record of three real channels (the
  code's \<open>float\<close>s, not clamped to [0, 1]), its \<open>map\<close> and \<open>brightness\<close>,
  with the code's weights 0.0722, 0.7152, 0.2126 for red, green, blue in that order;
  \<open>Image\<close> (line 32) is a matrix of colours and the constructor \<open>Image(width,
  height)\<close> (lines 34--39) allocates one filled with black.
\<close>

record color =
  r :: real
  g :: real
  b :: real

definition color_map :: "(real \<Rightarrow> real) \<Rightarrow> color \<Rightarrow> color" where
  "color_map f c = \<lparr>r = f (r c), g = f (g c), b = f (b c)\<rparr>"

definition brightness :: "color \<Rightarrow> real" where
  "brightness c = 0.0722 * r c + 0.7152 * g c + 0.2126 * b c"

type_synonym image = "color matrix"

definition black :: color where
  "black = \<lparr>r = 0, g = 0, b = 0\<rparr>"

definition Image_make :: "nat \<Rightarrow> nat \<Rightarrow> image" where
  "Image_make wd ht = new_matrix wd ht black"

text \<open>
  Test images: the grey of level \<open>v\<close>, and an image of one colour
  (the uniform images of spec.md section 8).
\<close>

definition grey :: "real \<Rightarrow> color" where
  "grey v = \<lparr>r = v, g = v, b = v\<rparr>"

definition uniform_image :: "nat \<Rightarrow> nat \<Rightarrow> color \<Rightarrow> image" where
  "uniform_image wd ht c = \<lparr>data = replicate (wd * ht) c, w = wd, h = ht\<rparr>"

text \<open>The weights add up to one: a grey pixel's brightness is its level.\<close>

lemma brightness_grey [simp]: "brightness (grey v) = v"
  by (simp add: brightness_def grey_def)

lemma brightness_black [simp]: "brightness black = 0"
  by (simp add: black_def brightness_def)

lemma brightness_scale: "brightness (color_map (\<lambda>t. k * t) c) = k * brightness c"
  by (simp add: brightness_def color_map_def algebra_simps)

lemma Image_make_dims [simp]: "w (Image_make W H) = W" "h (Image_make W H) = H"
  by (simp_all add: Image_make_def)

lemma wf_Image_make [simp]: "W * H < uint_size \<Longrightarrow> wf_matrix (Image_make W H)"
  by (simp add: Image_make_def)

lemma uniform_image_dims [simp]: "w (uniform_image W H c) = W" "h (uniform_image W H c) = H"
  by (simp_all add: uniform_image_def)

lemma wf_uniform_image [simp]: "W * H < uint_size \<Longrightarrow> wf_matrix (uniform_image W H c)"
  by (simp add: uniform_image_def wf_matrix_def)

lemma px_uniform_image [simp]:
  "x < W \<Longrightarrow> y < H \<Longrightarrow> px (uniform_image W H c) x y = c"
  by (simp add: uniform_image_def px_def row_index_less)

end
