(* ===== verification/Energy.thy ===== *)
theory Energy
  imports Color
begin

text \<open>
  \<open>Image::energy\<close> of src/seam.rs (lines 48--69).  \<open>energy_px\<close> is the body
  of the double loop for one pixel (lines 54--63): the brightness of the four
  neighbours, each replaced by the pixel itself at the border (the tests
  \<open>x > 0\<close>, \<open>x < self.w-1\<close>, \<open>y > 0\<close>, \<open>y < self.h-1\<close>, the last two in
  \<open>uint\<close>), the two half differences and the scaled gradient norm.  \<open>energy\<close>
  allocates the zero matrix and fills it in row-major order (lines 49--66).

  \<open>energy_at\<close> is the specification of spec.md section 4.2 on the pixel function
  \<open>px\<close>: the central-difference gradient with edge clamping.  \<open>energy_eq\<close>
  shows that on a well-formed image the loop never faults and computes exactly
  \<open>tabulate\<close> of \<open>energy_at\<close>; the claims derive the per-pixel refinement, the
  sign of the energy and the uniform-image case from it.
\<close>

definition energy_px :: "image \<Rightarrow> nat \<Rightarrow> nat \<Rightarrow> real res" where
  "energy_px img x y =
     rbind (matrix_at img x y) (\<lambda>c.
     rbind (if 0 < x then matrix_at img (x - 1) y else Inr c) (\<lambda>cl.
     rbind (if x < usub1 (w img) then matrix_at img (x + 1) y else Inr c) (\<lambda>cr.
     rbind (if 0 < y then matrix_at img x (y - 1) else Inr c) (\<lambda>cu.
     rbind (if y < usub1 (h img) then matrix_at img x (y + 1) else Inr c) (\<lambda>cd.
       let l = brightness cl; rt = brightness cr; u = brightness cu; d = brightness cd;
           x_energy = -0.5 * l + 0.5 * rt;
           y_energy = -0.5 * d + 0.5 * u
       in Inr (sqrt (x_energy * x_energy + y_energy * y_energy) / sqrt 0.5))))))"

definition energy :: "image \<Rightarrow> real matrix res" where
  "energy img = fill (w img) (h img) (energy_px img) (new_matrix (w img) (h img) 0)"

section \<open>Specification\<close>

definition grad_norm :: "real \<Rightarrow> real \<Rightarrow> real" where
  "grad_norm dx dy = sqrt ((dx / 2)\<^sup>2 + (dy / 2)\<^sup>2) / sqrt (1 / 2)"

definition energy_at :: "image \<Rightarrow> nat \<Rightarrow> nat \<Rightarrow> real" where
  "energy_at img x y =
     (let c = px img x y;
          l = brightness (if 0 < x then px img (x - 1) y else c);
          rt = brightness (if x + 1 < w img then px img (x + 1) y else c);
          u = brightness (if 0 < y then px img x (y - 1) else c);
          d = brightness (if y + 1 < h img then px img x (y + 1) else c)
      in grad_norm (rt - l) (u - d))"

text \<open>A colour whose channels lie in [0, 1] (spec.md section 1, linear RGB).\<close>

definition unit_color :: "color \<Rightarrow> bool" where
  "unit_color c \<longleftrightarrow> 0 \<le> r c \<and> r c \<le> 1 \<and> 0 \<le> g c \<and> g c \<le> 1 \<and> 0 \<le> b c \<and> b c \<le> 1"

section \<open>The loop computes the specification\<close>

lemma usub1_less_iff: "x < n \<Longrightarrow> (x < usub1 n) = (x + 1 < n)"
  by (auto simp: usub1_def)

text \<open>The code's formula, in the form the simplifier leaves it in.\<close>

lemma grad_norm_code:
  "sqrt ((rt / 2 - l / 2) * (rt / 2 - l / 2) + (u / 2 - d / 2) * (u / 2 - d / 2)) / sqrt (1 / 2)
     = grad_norm (rt - l) (u - d)"
proof -
  have "(rt / 2 - l / 2) * (rt / 2 - l / 2) + (u / 2 - d / 2) * (u / 2 - d / 2)
        = ((rt - l) / 2)\<^sup>2 + ((u - d) / 2)\<^sup>2"
    by (simp add: power2_eq_square field_simps)
  then show ?thesis by (simp add: grad_norm_def)
qed

lemma energy_px_ok:
  assumes "wf_matrix img" "x < w img" "y < h img"
  shows "energy_px img x y = Inr (energy_at img x y)"
  using assms
  by (simp add: energy_px_def energy_at_def usub1_less_iff grad_norm_code Let_def)

lemma energy_eq:
  assumes "wf_matrix img"
  shows "energy img = Inr (tabulate (w img) (h img) (energy_at img))"
proof -
  have "w img * h img < uint_size" using assms by (simp add: wf_matrix_def)
  then show ?thesis
    unfolding energy_def by (rule fill_new_matrix) (simp add: energy_px_ok assms)
qed

lemma grad_norm_nonneg [simp]: "0 \<le> grad_norm dx dy"
  by (simp add: grad_norm_def)

lemma grad_norm_zero [simp]: "grad_norm 0 0 = 0"
  by (simp add: grad_norm_def)

lemma energy_at_nonneg [simp]: "0 \<le> energy_at img x y"
  by (simp add: energy_at_def Let_def)

text \<open>
  The gradient norm in closed form, and the bounds of \<open>sqrt (1/2)\<close>, the
  energy of a unit step in one direction.
\<close>

lemma grad_norm_eq: "grad_norm dx dy = sqrt ((dx\<^sup>2 + dy\<^sup>2) / 2)"
proof -
  have "grad_norm dx dy = sqrt ((dx / 2)\<^sup>2 + (dy / 2)\<^sup>2) * sqrt 2"
    by (simp add: grad_norm_def real_sqrt_divide)
  also have "\<dots> = sqrt (((dx / 2)\<^sup>2 + (dy / 2)\<^sup>2) * 2)"
    by (simp only: real_sqrt_mult)
  also have "((dx / 2)\<^sup>2 + (dy / 2)\<^sup>2) * 2 = (dx\<^sup>2 + dy\<^sup>2) / 2"
    by (simp add: power_divide field_simps)
  finally show ?thesis .
qed

lemma sqrt_half_bounds: "1 / 2 < sqrt (1 / 2 :: real)" "sqrt (1 / 2 :: real) < 1"
proof -
  have "(1 / 2 :: real) = sqrt (1 / 4)" by (simp add: real_sqrt_divide)
  also have "\<dots> < sqrt (1 / 2)" by simp
  finally show "1 / 2 < sqrt (1 / 2 :: real)" .
  show "sqrt (1 / 2 :: real) < 1" by simp
qed

lemma energy_at_uniform:
  "x < W \<Longrightarrow> y < H \<Longrightarrow> energy_at (uniform_image W H c) x y = 0"
  by (simp add: energy_at_def Let_def)

text \<open>The weights add up to 1, so a unit colour has a brightness in [0, 1].\<close>

lemma brightness_unit: "unit_color c \<Longrightarrow> 0 \<le> brightness c \<and> brightness c \<le> 1"
  by (simp add: unit_color_def brightness_def)

lemma grad_norm_le_1:
  assumes "\<bar>dx\<bar> \<le> 1" "\<bar>dy\<bar> \<le> 1"
  shows "grad_norm dx dy \<le> 1"
proof -
  have "dx\<^sup>2 \<le> 1" "dy\<^sup>2 \<le> 1" using assms by (simp_all add: abs_le_square_iff [of _ 1, simplified])
  then have "(dx\<^sup>2 + dy\<^sup>2) / 2 \<le> 1" by simp
  then show ?thesis by (simp add: grad_norm_eq)
qed

text \<open>On an image of unit colours the energy of every pixel lies in [0, 1].\<close>

lemma energy_at_unit_bound:
  assumes "wf_matrix img" "list_all unit_color (data img)" "x < w img" "y < h img"
  shows "0 \<le> energy_at img x y \<and> energy_at img x y \<le> 1"
proof -
  have u: "unit_color (px img x' y')" if "x' < w img" "y' < h img" for x' y'
    using assms(1,2) idx_in_range [OF assms(1) that] by (simp add: px_def list_all_length)
  let ?c = "px img x y"
  let ?l = "brightness (if 0 < x then px img (x - 1) y else ?c)"
  let ?rt = "brightness (if x + 1 < w img then px img (x + 1) y else ?c)"
  let ?u = "brightness (if 0 < y then px img x (y - 1) else ?c)"
  let ?d = "brightness (if y + 1 < h img then px img x (y + 1) else ?c)"
  have b: "0 \<le> ?l \<and> ?l \<le> 1" "0 \<le> ?rt \<and> ?rt \<le> 1" "0 \<le> ?u \<and> ?u \<le> 1" "0 \<le> ?d \<and> ?d \<le> 1"
    using assms(3,4) by (auto intro!: brightness_unit u)
  have "grad_norm (?rt - ?l) (?u - ?d) \<le> 1" using b by (intro grad_norm_le_1) auto
  then show ?thesis by (simp add: energy_at_def Let_def)
qed

section \<open>Claims\<close>

text \<open>
  C5: on a well-formed image \<open>energy\<close> never faults; it returns a
  well-formed matrix of the image's dimensions whose cell \<open>(x, y)\<close> is the
  central-difference gradient norm of spec.md section 4.2 with the neighbours
  clamped at the border (\<open>energy_at\<close>).
\<close>

theorem energy_refines:
  assumes "wf_matrix img"
  shows "\<exists>e. energy img = Inr e \<and> wf_matrix e \<and> w e = w img \<and> h e = h img
           \<and> (\<forall>x < w img. \<forall>y < h img. px e x y = energy_at img x y)"
proof -
  have "w img * h img < uint_size" using assms by (simp add: wf_matrix_def)
  then show ?thesis using energy_eq [OF assms] by simp
qed

theorem energy_refines_witness:
  "wf_matrix \<lparr>data = replicate 4 black, w = 2, h = 2\<rparr>
   \<and> (\<exists>e. energy \<lparr>data = replicate 4 black, w = 2, h = 2\<rparr> = Inr e \<and> wf_matrix e
        \<and> w e = 2 \<and> h e = 2
        \<and> (\<forall>x < 2. \<forall>y < 2. px e x y = energy_at \<lparr>data = replicate 4 black, w = 2, h = 2\<rparr> x y))"
  using energy_refines [of "\<lparr>data = replicate 4 black, w = 2, h = 2\<rparr>"]
  by (simp add: wf_matrix_def uint_size_def)

text \<open>
  C18: every value of the energy field of a well-formed image is non-negative
  (spec.md section 8).
\<close>

theorem energy_nonneg:
  assumes "wf_matrix img" "energy img = Inr e"
  shows "\<forall>v \<in> set (data e). 0 \<le> v"
proof -
  have "e = tabulate (w img) (h img) (energy_at img)" using assms energy_eq by simp
  then show ?thesis by (auto simp: tabulate_def rows_def)
qed

theorem energy_nonneg_witness:
  "wf_matrix \<lparr>data = replicate 4 black, w = 2, h = 2\<rparr>
   \<and> energy \<lparr>data = replicate 4 black, w = 2, h = 2\<rparr> = Inr (tabulate 2 2 (energy_at \<lparr>data = replicate 4 black, w = 2, h = 2\<rparr>))
   \<and> list_all (\<lambda>v. 0 \<le> v) (data (tabulate 2 2 (energy_at \<lparr>data = replicate 4 black, w = 2, h = 2\<rparr>)))"
proof -
  have wf: "wf_matrix \<lparr>data = replicate 4 black, w = 2, h = 2\<rparr>"
    by (simp add: wf_matrix_def uint_size_def)
  have e: "energy \<lparr>data = replicate 4 black, w = 2, h = 2\<rparr>
           = Inr (tabulate 2 2 (energy_at \<lparr>data = replicate 4 black, w = 2, h = 2\<rparr>))"
    using energy_eq [OF wf] by simp
  show ?thesis using wf e energy_nonneg [OF wf e] by (simp add: list_all_iff)
qed

text \<open>
  C26: on a well-formed image whose colours have channels in [0, 1], every value
  of the energy matrix that \<open>Image::energy\<close> returns lies in [0, 1], and the
  value 1 is reached (a black pixel with white neighbours on the right and
  above).  The normalisation by \<open>sqrt 0.5\<close> therefore keeps the energy in
  the unit interval, where spec.md section 4.2 allows values above 1.
\<close>

theorem energy_bounded:
  assumes "wf_matrix img" "list_all unit_color (data img)" "energy img = Inr e"
  shows "list_all (\<lambda>v. 0 \<le> v \<and> v \<le> 1) (data e)"
proof -
  have "e = tabulate (w img) (h img) (energy_at img)" using assms(1,3) energy_eq by simp
  then show ?thesis
    using energy_at_unit_bound [OF assms(1,2)] by (auto simp: tabulate_def rows_def list_all_iff)
qed

theorem energy_bounded_witness:
  "energy \<lparr>data = [grey 1, grey 1, black, grey 1], w = 2, h = 2\<rparr>
     = Inr (tabulate 2 2 (energy_at \<lparr>data = [grey 1, grey 1, black, grey 1], w = 2, h = 2\<rparr>))
   \<and> list_all (\<lambda>v. 0 \<le> v \<and> v \<le> 1)
       (data (tabulate 2 2 (energy_at \<lparr>data = [grey 1, grey 1, black, grey 1], w = 2, h = 2\<rparr>)))
   \<and> px (tabulate 2 2 (energy_at \<lparr>data = [grey 1, grey 1, black, grey 1], w = 2, h = 2\<rparr>)) 0 1 = 1"
proof -
  have wf: "wf_matrix \<lparr>data = [grey 1, grey 1, black, grey 1], w = 2, h = 2\<rparr>"
    by (simp add: wf_matrix_def uint_size_def)
  have u: "list_all unit_color [grey 1, grey 1, black, grey 1]"
    by (simp add: unit_color_def black_def grey_def)
  have e: "energy \<lparr>data = [grey 1, grey 1, black, grey 1], w = 2, h = 2\<rparr>
     = Inr (tabulate 2 2 (energy_at \<lparr>data = [grey 1, grey 1, black, grey 1], w = 2, h = 2\<rparr>))"
    using energy_eq [OF wf] by simp
  have one: "energy_at \<lparr>data = [grey 1, grey 1, black, grey 1], w = 2, h = 2\<rparr> 0 1 = 1"
    by (simp add: energy_at_def px_def Let_def grad_norm_eq black_def grey_def brightness_def)
  show ?thesis using e one energy_bounded [OF wf _ e] u by simp
qed

end
