(* ===== verification/Seam_Table.thy ===== *)
theory Seam_Table
  imports Energy
begin

text \<open>
  The cost table of \<open>Image::best_seam\<close> (src/seam.rs lines 73--96).  Each cell
  holds a cost and the direction of the chosen predecessor, \<open>None\<close> on row 0.
  \<open>dp_cell\<close> is the loop body for one cell: on row 0 the energy of the cell;
  below, the three candidates \<open>l\<close>, \<open>t\<close>, \<open>r\<close> (infinity outside the image),
  their minimum by \<open>vec_min\<close> (the library's \<open>min\<close> on vectors, a left fold
  that fails on an empty vector), and the tie-break Left, then Right, then Up.
  Note that the candidates are read from the energy matrix \<open>ene\<close>, not from the
  table being built: the cost of a cell is its energy plus the smallest
  neighbouring energy of the row above, not a cumulative path cost.
  \<open>dp_table\<close> allocates the table filled with \<open>(0.0, None)\<close> and fills it.

  \<open>dp_val\<close> is the same cell as a function of the energy field read as a
  function; \<open>dp_table_eq\<close> shows that the loop computes \<open>tabulate\<close> of it.
  \<open>dp_val_Suc\<close> characterises a cell below row 0: its direction stays inside
  the image and its cost is the two energies it joins.
\<close>

datatype direction = Left | Right | Up

definition vec_min :: "'a::linorder list \<Rightarrow> 'a res" where
  "vec_min xs =
     (case foldl (\<lambda>acc v. case acc of Some a \<Rightarrow> if a < v then Some a else Some v | None \<Rightarrow> Some v)
                 None xs of
        None \<Rightarrow> Inl EmptyVector
      | Some m \<Rightarrow> Inr m)"

definition dp_cell :: "nat \<Rightarrow> real matrix \<Rightarrow> nat \<Rightarrow> nat \<Rightarrow> (flt \<times> direction option) res" where
  "dp_cell W ene x y =
     (if y = 0 then rbind (matrix_at ene x y) (\<lambda>e. Inr (Fin e, None))
      else
        rbind (if 0 < x then map_sum id Fin (matrix_at ene (x - 1) (y - 1)) else Inr Infinity) (\<lambda>l.
        rbind (map_sum id Fin (matrix_at ene x (y - 1))) (\<lambda>t.
        rbind (if x < usub1 W then map_sum id Fin (matrix_at ene (x + 1) (y - 1)) else Inr Infinity)
          (\<lambda>rt.
        rbind (vec_min [l, t, rt]) (\<lambda>mn.
        rbind (matrix_at ene x y) (\<lambda>my.
          if mn = l then Inr (Fin my + l, Some Left)
          else if mn = rt then Inr (Fin my + rt, Some Right)
          else Inr (Fin my + t, Some Up)))))))"

definition dp_table :: "image \<Rightarrow> real matrix \<Rightarrow> (flt \<times> direction option) matrix res" where
  "dp_table img ene =
     fill (w img) (h img) (dp_cell (w img) ene) (new_matrix (w img) (h img) (0, None))"

section \<open>Specification of a cell\<close>

definition dp_val :: "nat \<Rightarrow> (nat \<Rightarrow> nat \<Rightarrow> real) \<Rightarrow> nat \<Rightarrow> nat \<Rightarrow> flt \<times> direction option" where
  "dp_val W E x y =
     (if y = 0 then (Fin (E x 0), None)
      else
        let l = (if 0 < x then Fin (E (x - 1) (y - 1)) else Infinity);
            t = Fin (E x (y - 1));
            rt = (if x + 1 < W then Fin (E (x + 1) (y - 1)) else Infinity);
            mn = min l (min t rt)
        in if mn = l then (Fin (E x y) + l, Some Left)
           else if mn = rt then (Fin (E x y) + rt, Some Right)
           else (Fin (E x y) + t, Some Up))"

text \<open>The column a direction leads to in the row above.\<close>

definition next_col :: "nat \<Rightarrow> direction \<Rightarrow> nat" where
  "next_col x d = (case d of Left \<Rightarrow> x - 1 | Right \<Rightarrow> x + 1 | Up \<Rightarrow> x)"

text \<open>
  The order of preference of the tie-break: Left before Right before Up.
  Directions are ordered by it, so that "first in the order" is \<open>\<le>\<close>.
\<close>

definition dir_rank :: "direction \<Rightarrow> nat" where
  "dir_rank d = (case d of Left \<Rightarrow> 0 | Right \<Rightarrow> 1 | Up \<Rightarrow> 2)"

instantiation direction :: linorder
begin

definition less_eq_direction :: "direction \<Rightarrow> direction \<Rightarrow> bool" where
  "less_eq_direction d d' \<longleftrightarrow> dir_rank d \<le> dir_rank d'"

definition less_direction :: "direction \<Rightarrow> direction \<Rightarrow> bool" where
  "less_direction d d' \<longleftrightarrow> dir_rank d < dir_rank d'"

instance
proof
  fix d d' :: direction
  show "d = d'" if "d \<le> d'" "d' \<le> d"
    using that by (cases d; cases d') (simp_all add: less_eq_direction_def dir_rank_def)
qed (auto simp: less_eq_direction_def less_direction_def)

end

text \<open>
  The candidate cost a direction offers to cell \<open>(x, y)\<close>, \<open>y > 0\<close>: the
  energy of the neighbour in the row above, infinity outside the image.
\<close>

definition cand :: "nat \<Rightarrow> (nat \<Rightarrow> nat \<Rightarrow> real) \<Rightarrow> nat \<Rightarrow> nat \<Rightarrow> direction \<Rightarrow> flt" where
  "cand W E x y d =
     (case d of
        Left \<Rightarrow> if 0 < x then Fin (E (x - 1) (y - 1)) else Infinity
      | Right \<Rightarrow> if x + 1 < W then Fin (E (x + 1) (y - 1)) else Infinity
      | Up \<Rightarrow> Fin (E x (y - 1)))"

section \<open>The loop computes the specification\<close>

lemma vec_min3 [simp]: "vec_min [v1, v2, v3::'a::linorder] = Inr (min v1 (min v2 v3))"
  by (auto simp: vec_min_def min_def)

lemma dp_cell_ok:
  assumes "wf_matrix ene" "w ene = W" "h ene = H" "x < W" "y < H"
  shows "dp_cell W ene x y = Inr (dp_val W (px ene) x y)"
proof (cases "y = 0")
  case True
  with assms show ?thesis by (simp add: dp_cell_def dp_val_def)
next
  case False
  have "x < usub1 W \<longleftrightarrow> x + 1 < W" using assms(4) by (rule usub1_less_iff)
  with assms False show ?thesis
    by (cases "0 < x"; cases "x + 1 < W") (simp_all add: dp_cell_def dp_val_def Let_def)
qed

lemma dp_table_eq:
  assumes "wf_matrix img" "wf_matrix ene" "w ene = w img" "h ene = h img"
  shows "dp_table img ene = Inr (tabulate (w img) (h img) (dp_val (w img) (px ene)))"
proof -
  have "w img * h img < uint_size" using assms(1) by (simp add: wf_matrix_def)
  then show ?thesis
    unfolding dp_table_def by (rule fill_new_matrix) (use assms in \<open>simp add: dp_cell_ok\<close>)
qed

lemma dp_val_cong:
  assumes "x < W" "y < H" "\<And>x y. x < W \<Longrightarrow> y < H \<Longrightarrow> E x y = E' x y"
  shows "dp_val W E x y = dp_val W E' x y"
proof (cases "y = 0")
  case True
  then show ?thesis using assms by (simp add: dp_val_def)
next
  case False
  have e1: "E x y = E' x y" "E x (y - 1) = E' x (y - 1)" using assms by auto
  have e2: "(if 0 < x then Fin (E (x - 1) (y - 1)) else Infinity)
          = (if 0 < x then Fin (E' (x - 1) (y - 1)) else Infinity)" using assms by auto
  have e3: "(if x + 1 < W then Fin (E (x + 1) (y - 1)) else Infinity)
          = (if x + 1 < W then Fin (E' (x + 1) (y - 1)) else Infinity)" using assms by auto
  show ?thesis unfolding dp_val_def Let_def by (simp only: e1 e2 e3) (simp add: False)
qed

section \<open>Properties of a cell\<close>

lemma dp_val_0 [simp]: "dp_val W E x 0 = (Fin (E x 0), None)"
  by (simp add: dp_val_def)

lemma dp_val_Suc:
  assumes "x < W"
  obtains d where "dp_val W E x (Suc y) = (Fin (E x (Suc y) + E (next_col x d) y), Some d)"
    and "d = Left \<Longrightarrow> 0 < x" and "d = Right \<Longrightarrow> x + 1 < W"
proof -
  have "\<exists>d. dp_val W E x (Suc y) = (Fin (E x (Suc y) + E (next_col x d) y), Some d)
          \<and> (d = Left \<longrightarrow> 0 < x) \<and> (d = Right \<longrightarrow> x + 1 < W)"
    by (auto simp: dp_val_def next_col_def Let_def min_def split: if_splits)
  then show ?thesis using that by blast
qed

section \<open>The tie-break\<close>

lemma all_direction: "(\<forall>d. P d) \<longleftrightarrow> P Left \<and> P Right \<and> P Up"
  by (metis direction.exhaust)

lemma direction_le_simps [simp]:
  "Left \<le> d" "d \<le> Up" "(Right \<le> Left) = False" "(Up \<le> Left) = False" "(Up \<le> Right) = False"
  by (cases d; simp add: less_eq_direction_def dir_rank_def)+

text \<open>
  The code's test sequence \<open>min == l\<close>, \<open>min == r\<close>, else Up picks a
  direction of least candidate, the first in the order among the least ones.
\<close>

lemma tie_break:
  fixes l t rt :: "'a::linorder"
  shows "\<exists>d. (if min l (min t rt) = l then (l, Left) else if min l (min t rt) = rt then (rt, Right) else (t, Up))
           = (case d of Left \<Rightarrow> l | Right \<Rightarrow> rt | Up \<Rightarrow> t, d)
         \<and> (\<forall>d'. (case d of Left \<Rightarrow> l | Right \<Rightarrow> rt | Up \<Rightarrow> t) \<le> (case d' of Left \<Rightarrow> l | Right \<Rightarrow> rt | Up \<Rightarrow> t))
         \<and> (\<forall>d'. (case d' of Left \<Rightarrow> l | Right \<Rightarrow> rt | Up \<Rightarrow> t) = (case d of Left \<Rightarrow> l | Right \<Rightarrow> rt | Up \<Rightarrow> t) \<longrightarrow> d \<le> d')"
  by (auto simp: all_direction min_def split: if_splits)

lemma dp_val_choice:
  assumes "0 < y"
  shows "\<exists>d. dp_val W E x y = (Fin (E x y) + cand W E x y d, Some d)
           \<and> (\<forall>d'. cand W E x y d \<le> cand W E x y d')
           \<and> (\<forall>d'. cand W E x y d' = cand W E x y d \<longrightarrow> d \<le> d')"
proof -
  have "dp_val W E x y =
     (let mn = min (cand W E x y Left) (min (cand W E x y Up) (cand W E x y Right))
      in if mn = cand W E x y Left then (Fin (E x y) + cand W E x y Left, Some Left)
         else if mn = cand W E x y Right then (Fin (E x y) + cand W E x y Right, Some Right)
         else (Fin (E x y) + cand W E x y Up, Some Up))"
    using assms by (simp add: dp_val_def cand_def Let_def)
  then show ?thesis
    using tie_break [of "cand W E x y Left" "cand W E x y Up" "cand W E x y Right"]
    by (auto simp: Let_def all_direction split: if_splits)
qed

text \<open>
  A cell of the specification holds a finite cost; its direction is absent
  exactly on row 0 and leads to a column of the image.
\<close>

lemma dp_val_shape:
  assumes "x < W"
  shows "(\<exists>c. fst (dp_val W E x y) = Fin c)
    \<and> (case snd (dp_val W E x y) of None \<Rightarrow> y = 0
         | Some d \<Rightarrow> 0 < y \<and> (d = Left \<longrightarrow> 0 < x) \<and> next_col x d < W)"
proof (cases y)
  case 0
  then show ?thesis by simp
next
  case (Suc y')
  obtain d where "dp_val W E x (Suc y') = (Fin (E x (Suc y') + E (next_col x d) y'), Some d)"
      "d = Left \<Longrightarrow> 0 < x" "d = Right \<Longrightarrow> x + 1 < W"
    using dp_val_Suc [OF assms, where E = E and y = y'] by blast
  then show ?thesis using assms Suc by (cases d) (auto simp: next_col_def)
qed

section \<open>Claims\<close>

text \<open>
  C6: below row 0 the loop body of the cost table stores, for a cell of a
  well-formed energy matrix, the cell's energy plus the candidate of a direction
  \<open>d\<close>, and \<open>d\<close> itself; \<open>d\<close> has the least candidate of the three, and
  among the directions of least candidate it is the first of Left, Right, Up
  (spec.md section 4.3, the tie-break).
\<close>

theorem dp_choice:
  assumes "wf_matrix ene" "w ene = W" "x < W" "0 < y" "y < h ene"
  shows "\<exists>d. dp_cell W ene x y = Inr (Fin (px ene x y) + cand W (px ene) x y d, Some d)
           \<and> (\<forall>d'. cand W (px ene) x y d \<le> cand W (px ene) x y d')
           \<and> (\<forall>d'. cand W (px ene) x y d' = cand W (px ene) x y d \<longrightarrow> d \<le> d')"
  using dp_cell_ok [OF assms(1,2) refl assms(3,5)] dp_val_choice [OF assms(4), of W "px ene" x]
  by auto

theorem dp_choice_witness:
  "wf_matrix (tabulate 3 2 (\<lambda>x y. 0::real)) \<and> w (tabulate 3 2 (\<lambda>x y. 0::real)) = 3
   \<and> dp_cell 3 (tabulate 3 2 (\<lambda>x y. 0::real)) 1 1 = Inr (0, Some Left)"
proof -
  obtain d where d: "dp_cell 3 (tabulate 3 2 (\<lambda>x y. 0::real)) 1 1
        = Inr (Fin 0 + cand 3 (px (tabulate 3 2 (\<lambda>x y. 0::real))) 1 1 d, Some d)"
      "\<forall>d'. cand 3 (px (tabulate 3 2 (\<lambda>x y. 0::real))) 1 1 d' = cand 3 (px (tabulate 3 2 (\<lambda>x y. 0::real))) 1 1 d \<longrightarrow> d \<le> d'"
    using dp_choice [of "tabulate 3 2 (\<lambda>x y. 0::real)" 3 1 1] by (auto simp: uint_size_def)
  have "d \<le> Left" using spec [OF d(2), of Left] by (cases d) (simp_all add: cand_def)
  then have "d = Left" by (simp add: antisym)
  then show ?thesis using d(1) by (simp add: uint_size_def cand_def)
qed

text \<open>
  C19: the cost table of a well-formed image is well-formed and of the image's
  dimensions, every cost in it is finite, and the direction of a cell is
  absent exactly on row 0 and otherwise leads to a column inside the image
  (Left never on column 0): the invariant the back-tracking walk relies on.
\<close>

theorem dp_table_shape:
  assumes "wf_matrix img" "wf_matrix ene" "w ene = w img" "h ene = h img"
    and "dp_table img ene = Inr T"
  shows "wf_matrix T \<and> w T = w img \<and> h T = h img
    \<and> (\<forall>x < w img. \<forall>y < h img. (\<exists>c. fst (px T x y) = Fin c)
          \<and> (case snd (px T x y) of None \<Rightarrow> y = 0
               | Some d \<Rightarrow> 0 < y \<and> (d = Left \<longrightarrow> 0 < x) \<and> next_col x d < w img))"
proof -
  have T: "T = tabulate (w img) (h img) (dp_val (w img) (px ene))"
    using dp_table_eq [OF assms(1-4)] assms(5) by simp
  have "w img * h img < uint_size" using assms(1) by (simp add: wf_matrix_def)
  then show ?thesis using T dp_val_shape by simp
qed

theorem dp_table_shape_witness:
  "dp_table (uniform_image 2 2 (grey 0)) (tabulate 2 2 (\<lambda>x y. 0))
     = Inr (tabulate 2 2 (dp_val 2 (px (tabulate 2 2 (\<lambda>x y. 0::real)))))
   \<and> (\<exists>d. snd (px (tabulate 2 2 (dp_val 2 (px (tabulate 2 2 (\<lambda>x y. 0::real))))) 0 1) = Some d
        \<and> d \<noteq> Left \<and> next_col 0 d < 2)"
proof -
  have wf: "wf_matrix (uniform_image 2 2 (grey 0))" "wf_matrix (tabulate 2 2 (\<lambda>x y. 0::real))"
    by (simp_all add: uint_size_def)
  have eq: "dp_table (uniform_image 2 2 (grey 0)) (tabulate 2 2 (\<lambda>x y. 0))
     = Inr (tabulate 2 2 (dp_val 2 (px (tabulate 2 2 (\<lambda>x y. 0::real)))))"
    using dp_table_eq [OF wf] by simp
  have "case snd (px (tabulate 2 2 (dp_val 2 (px (tabulate 2 2 (\<lambda>x y. 0::real))))) 0 1) of
          None \<Rightarrow> (1::nat) = 0
        | Some d \<Rightarrow> (0::nat) < 1 \<and> (d = Left \<longrightarrow> (0::nat) < 0) \<and> next_col 0 d < w (uniform_image 2 2 (grey 0))"
    using dp_table_shape [OF wf _ _ eq, THEN conjunct2, THEN conjunct2, THEN conjunct2,
        rule_format, of 0 1] by simp
  then show ?thesis using eq by (simp split: option.split_asm)
qed

end
