(* ===== verification/Seam_Walk.thy ===== *)
theory Seam_Walk
  imports Seam_Table
begin

text \<open>
  Seam extraction of \<open>Image::best_seam\<close> (src/seam.rs lines 98--128) and the
  whole function (lines 71--129).  \<open>walk\<close> is the inner \<open>loop\<close> (lines
  102--120): from column \<open>cx\<close> of row \<open>cy\<close> it adds the cell's cost to the
  running total, abandons the column as soon as the total exceeds the best total so
  far, records the column and follows the cell's direction upwards until a cell
  without direction.  The decrements and the increment are \<open>uint\<close> operations,
  and nothing in the loop itself bounds it, so it is a \<open>partial_function\<close> in
  the option monad: \<open>None\<close> would mean that it runs forever.  \<open>scan_column\<close> is
  one turn of the outer \<open>for\<close> (lines 101--126), keeping the first column of
  strictly smallest total; \<open>best_seam\<close> computes the energy, the table and the
  scan, and reverses the winning column list (line 128).

  The reference is \<open>seam_ref\<close>: for every bottom column, the full path the
  directions of the table describe (\<open>trail\<close>) and its summed cost
  (\<open>path_cost\<close>), and the first column of least cost.  \<open>walk_dp\<close> shows that
  on the table the code builds the walk always returns, never faults, and returns
  the full path whenever it is not dearer than the bound; \<open>scan_dp\<close> that the
  pruned scan computes the reference.
\<close>

type_synonym cell = "flt \<times> direction option"

partial_function (option) walk ::
  "cell matrix \<Rightarrow> flt \<Rightarrow> nat \<Rightarrow> nat \<Rightarrow> flt \<Rightarrow> nat list \<Rightarrow> (flt \<times> nat list) pres" where
  "walk table best_energy cx cy total_energy pixels =
     (case matrix_at table cx cy of
        Inl e \<Rightarrow> Some (Inl e)
      | Inr (cost, dir) \<Rightarrow>
          (let total' = total_energy + cost in
           if best_energy < total' then Some (Inr (total', pixels))
           else
             (let pixels' = pixels @ [cx] in
              case dir of
                None \<Rightarrow> Some (Inr (total', pixels'))
              | Some Left \<Rightarrow> walk table best_energy (usub1 cx) (usub1 cy) total' pixels'
              | Some Right \<Rightarrow> walk table best_energy (uinc cx) (usub1 cy) total' pixels'
              | Some Up \<Rightarrow> walk table best_energy cx (usub1 cy) total' pixels')))"

definition scan_column :: "cell matrix \<Rightarrow> nat \<Rightarrow> nat \<Rightarrow> flt \<times> nat list \<Rightarrow> (flt \<times> nat list) pres" where
  "scan_column table ht x best =
     pbind (walk table (fst best) x (usub1 ht) 0 []) (\<lambda>(total_energy, pixels).
       Some (Inr (if total_energy < fst best then (total_energy, pixels) else best)))"

definition best_seam :: "image \<Rightarrow> (flt \<times> nat list) pres" where
  "best_seam img =
     pbind (Some (energy img)) (\<lambda>ene.
     pbind (Some (dp_table img ene)) (\<lambda>table.
     pbind (pforM [0..<w img] (scan_column table (h img)) (Infinity, [])) (\<lambda>(best_energy, seam).
       Some (Inr (best_energy, rev seam)))))"

text \<open>
  The same function without the pruning test \<open>if total_energy > best_energy
  { break; }\<close>: spec.md section 4.3 calls the pruning an optimisation that does not
  change the result; \<open>best_seam_pruning_sound\<close> proves it.
\<close>

partial_function (option) walk_full ::
  "cell matrix \<Rightarrow> nat \<Rightarrow> nat \<Rightarrow> flt \<Rightarrow> nat list \<Rightarrow> (flt \<times> nat list) pres" where
  "walk_full table cx cy total_energy pixels =
     (case matrix_at table cx cy of
        Inl e \<Rightarrow> Some (Inl e)
      | Inr (cost, dir) \<Rightarrow>
          (let total' = total_energy + cost; pixels' = pixels @ [cx] in
           case dir of
             None \<Rightarrow> Some (Inr (total', pixels'))
           | Some Left \<Rightarrow> walk_full table (usub1 cx) (usub1 cy) total' pixels'
           | Some Right \<Rightarrow> walk_full table (uinc cx) (usub1 cy) total' pixels'
           | Some Up \<Rightarrow> walk_full table cx (usub1 cy) total' pixels'))"

definition scan_column_full :: "cell matrix \<Rightarrow> nat \<Rightarrow> nat \<Rightarrow> flt \<times> nat list \<Rightarrow> (flt \<times> nat list) pres" where
  "scan_column_full table ht x best =
     pbind (walk_full table x (usub1 ht) 0 []) (\<lambda>(total_energy, pixels).
       Some (Inr (if total_energy < fst best then (total_energy, pixels) else best)))"

definition best_seam_full :: "image \<Rightarrow> (flt \<times> nat list) pres" where
  "best_seam_full img =
     pbind (Some (energy img)) (\<lambda>ene.
     pbind (Some (dp_table img ene)) (\<lambda>table.
     pbind (pforM [0..<w img] (scan_column_full table (h img)) (Infinity, [])) (\<lambda>(best_energy, seam).
       Some (Inr (best_energy, rev seam)))))"

section \<open>Reference: full paths and the first cheapest one\<close>

definition step_dir :: "cell \<Rightarrow> direction" where
  "step_dir c = (case snd c of Some d \<Rightarrow> d | None \<Rightarrow> Up)"

fun trail :: "(nat \<Rightarrow> nat \<Rightarrow> cell) \<Rightarrow> nat \<Rightarrow> nat \<Rightarrow> nat list" where
  "trail T x 0 = [x]"
| "trail T x (Suc y) = x # trail T (next_col x (step_dir (T x (Suc y)))) y"

fun path_cost :: "(nat \<Rightarrow> nat \<Rightarrow> cell) \<Rightarrow> nat \<Rightarrow> nat \<Rightarrow> flt" where
  "path_cost T x 0 = fst (T x 0)"
| "path_cost T x (Suc y) = fst (T x (Suc y)) + path_cost T (next_col x (step_dir (T x (Suc y)))) y"

definition pick :: "(nat \<Rightarrow> nat \<Rightarrow> cell) \<Rightarrow> nat \<Rightarrow> flt \<times> nat list \<Rightarrow> nat \<Rightarrow> flt \<times> nat list" where
  "pick T y best x =
     (if path_cost T x y < fst best then (path_cost T x y, trail T x y) else best)"

definition seam_ref :: "(nat \<Rightarrow> nat \<Rightarrow> cell) \<Rightarrow> nat \<Rightarrow> nat \<Rightarrow> flt \<times> nat list" where
  "seam_ref T wd ht = foldl (pick T (ht - 1)) (Infinity, []) [0..<wd]"

text \<open>
  A seam as spec.md section 3 describes it: one column per row, inside the image,
  consecutive columns at most one apart.  Its energy is the sum of the energies of
  its pixels, row 0 first.
\<close>

definition valid_seam :: "nat \<Rightarrow> nat \<Rightarrow> nat list \<Rightarrow> bool" where
  "valid_seam wd ht s \<longleftrightarrow>
     length s = ht \<and> list_all (\<lambda>c. c < wd) s \<and> successively (\<lambda>a c. a \<le> c + 1 \<and> c \<le> a + 1) s"

definition seam_energy :: "(nat \<Rightarrow> nat \<Rightarrow> real) \<Rightarrow> nat list \<Rightarrow> real" where
  "seam_energy E s = sum_list (map (\<lambda>(c, k). E c k) (zip s [0..<length s]))"

section \<open>Paths through the table\<close>

lemma next_col_less:
  "x < W \<Longrightarrow> (d = Left \<Longrightarrow> 0 < x) \<Longrightarrow> (d = Right \<Longrightarrow> x + 1 < W) \<Longrightarrow> next_col x d < W"
  by (cases d) (auto simp: next_col_def)

lemma dp_step:
  assumes "x < W"
  obtains d where "dp_val W E x (Suc y) = (Fin (E x (Suc y) + E (next_col x d) y), Some d)"
    and "next_col x d < W" and "d = Left \<Longrightarrow> 0 < x" and "d = Right \<Longrightarrow> x + 1 < W"
proof -
  obtain d where eq: "dp_val W E x (Suc y) = (Fin (E x (Suc y) + E (next_col x d) y), Some d)"
    and l: "d = Left \<Longrightarrow> 0 < x" and rt: "d = Right \<Longrightarrow> x + 1 < W"
    using dp_val_Suc [OF assms, where E = E and y = y] by blast
  show ?thesis using that [OF eq next_col_less [OF assms l rt] l rt] .
qed

lemma path_cost_nonneg:
  assumes "\<And>x y. 0 \<le> E x y"
  shows "x < W \<Longrightarrow> 0 \<le> path_cost (dp_val W E) x y"
proof (induction y arbitrary: x)
  case 0
  then show ?case using assms by simp
next
  case (Suc y)
  from Suc.prems obtain d where d: "dp_val W E x (Suc y) = (Fin (E x (Suc y) + E (next_col x d) y), Some d)"
    and nx: "next_col x d < W" by (rule dp_step)
  have "0 \<le> Fin (E x (Suc y) + E (next_col x d) y)" using assms by simp
  with Suc.IH [OF nx] d show ?case by (simp add: step_dir_def add_nonneg_nonneg)
qed

lemma uinc_in_range: "x + 1 < W \<Longrightarrow> W * H < uint_size \<Longrightarrow> y < H \<Longrightarrow> uinc x = x + 1"
proof -
  assume a: "x + 1 < W" "W * H < uint_size" "y < H"
  then have "W \<le> W * H" by simp
  with a have "x + 1 < uint_size" by linarith
  then show ?thesis by (simp add: uinc_def)
qed

lemma usub1_Suc [simp]: "usub1 (Suc n) = n"
  by (simp add: usub1_def)

lemma usub1_pos: "0 < n \<Longrightarrow> usub1 n = n - 1"
  by (simp add: usub1_def)

section \<open>The walk on the code's table\<close>

text \<open>
  One step of the walk below row 0: prune, or move to the column the direction
  names, one row up.  The \<open>uint\<close> arithmetic stays in range there.
\<close>

lemma walk_step:
  assumes sz: "W * H < uint_size" and x: "x < W" and y: "Suc y < H"
    and at: "matrix_at tbl x (Suc y) = Inr (c, Some d)"
    and dl: "d = Left \<Longrightarrow> 0 < x" and dr: "d = Right \<Longrightarrow> x + 1 < W"
  shows "walk tbl best x (Suc y) acc ps =
           (if best < acc + c then Some (Inr (acc + c, ps))
            else walk tbl best (next_col x d) y (acc + c) (ps @ [x]))"
proof -
  have ui: "d = Right \<Longrightarrow> uinc x = x + 1" using uinc_in_range [OF dr sz y] by simp
  show ?thesis
    by (subst walk.simps) (cases d; use at dl ui in \<open>simp add: next_col_def usub1_pos\<close>)
qed

lemma walk_dp:
  assumes sz: "W * H < uint_size" and E: "\<And>x y. 0 \<le> E x y"
  shows "x < W \<Longrightarrow> y < H \<Longrightarrow> 0 \<le> acc \<Longrightarrow>
    \<exists>res. walk (tabulate W H (dp_val W E)) best x y acc ps = Some (Inr res)
      \<and> (acc + path_cost (dp_val W E) x y \<le> best \<longrightarrow>
           res = (acc + path_cost (dp_val W E) x y, ps @ trail (dp_val W E) x y))
      \<and> (best < acc + path_cost (dp_val W E) x y \<longrightarrow> best < fst res)"
proof (induction y arbitrary: x acc ps)
  case 0
  then have at: "matrix_at (tabulate W H (dp_val W E)) x 0 = Inr (Fin (E x 0), None)"
    using sz by simp
  show ?case by (subst walk.simps) (auto simp: at not_less Let_def)
next
  case (Suc y)
  let ?T = "dp_val W E"
  obtain d
    where dv: "?T x (Suc y) = (Fin (E x (Suc y) + E (next_col x d) y), Some d)"
      and nx: "next_col x d < W" and dl: "d = Left \<Longrightarrow> 0 < x" and dr: "d = Right \<Longrightarrow> x + 1 < W"
    using dp_step [where E = E and y = y, OF Suc.prems(1)] by blast
  define c where "c = Fin (E x (Suc y) + E (next_col x d) y)"
  let ?rest = "path_cost ?T (next_col x d) y"
  have at: "matrix_at (tabulate W H ?T) x (Suc y) = Inr (c, Some d)"
    using Suc.prems sz dv by (simp add: c_def)
  have pc: "path_cost ?T x (Suc y) = c + ?rest" using dv by (simp add: step_dir_def c_def)
  have tr: "trail ?T x (Suc y) = x # trail ?T (next_col x d) y" using dv by (simp add: step_dir_def)
  have rest0: "0 \<le> ?rest" using path_cost_nonneg [OF E nx] .
  have t0: "0 \<le> acc + c" using Suc.prems(3) E by (simp add: c_def add_nonneg_nonneg)
  have unf: "walk (tabulate W H ?T) best x (Suc y) acc ps =
      (if best < acc + c then Some (Inr (acc + c, ps))
       else walk (tabulate W H ?T) best (next_col x d) y (acc + c) (ps @ [x]))"
    using Suc.prems by (intro walk_step [OF sz _ _ at dl dr]) simp_all
  show ?case
  proof (cases "best < acc + c")
    case True
    have "acc + c \<le> acc + (c + ?rest)"
      using add_increasing2 [OF rest0 order_refl, of "acc + c"] by (simp add: add.assoc)
    then have "acc + c \<le> acc + path_cost ?T x (Suc y)" by (simp only: pc)
    with True show ?thesis by (simp add: unf not_le)
  next
    case False
    have "y < H" using Suc.prems(2) by simp
    from Suc.IH [OF nx this t0, of "ps @ [x]"] False show ?thesis
      by (simp add: unf pc tr add.assoc del: path_cost.simps trail.simps)
  qed
qed

lemma scan_dp:
  assumes sz: "W * H < uint_size" and E: "\<And>x y. 0 \<le> E x y" and H: "0 < H"
  shows "set xs \<subseteq> {..<W} \<Longrightarrow>
    pforM xs (scan_column (tabulate W H (dp_val W E)) H) best
      = Some (Inr (foldl (pick (dp_val W E) (H - 1)) best xs))"
proof (induction xs arbitrary: best)
  case Nil
  then show ?case by simp
next
  case (Cons x xs)
  let ?T = "dp_val W E"
  have x: "x < W" and y: "H - 1 < H" using Cons.prems H by auto
  obtain res where wk: "walk (tabulate W H ?T) (fst best) x (H - 1) 0 [] = Some (Inr res)"
    and a: "path_cost ?T x (H - 1) \<le> fst best \<Longrightarrow> res = (path_cost ?T x (H - 1), trail ?T x (H - 1))"
    and b: "fst best < path_cost ?T x (H - 1) \<Longrightarrow> fst best < fst res"
    using walk_dp [of W H E, OF sz E x y, where acc = 0 and best = "fst best" and ps = "[]"]
    by auto
  have "scan_column (tabulate W H ?T) H x best = Some (Inr (pick ?T (H - 1) best x))"
  proof (cases "path_cost ?T x (H - 1) < fst best")
    case True
    with wk a show ?thesis by (simp add: scan_column_def pick_def usub1_pos H)
  next
    case False
    then consider "path_cost ?T x (H - 1) = fst best" | "fst best < path_cost ?T x (H - 1)"
      by fastforce
    then show ?thesis
    proof cases
      case 1
      with wk a show ?thesis by (simp add: scan_column_def pick_def usub1_pos H)
    next
      case 2
      with wk b show ?thesis
        by (cases res) (auto simp: scan_column_def pick_def usub1_pos H)
    qed
  qed
  with Cons show ?case by simp
qed

section \<open>The whole function\<close>

lemma energy_table:
  assumes wf: "wf_matrix img"
  shows "energy img = Inr (tabulate (w img) (h img) (energy_at img))
         \<and> dp_table img (tabulate (w img) (h img) (energy_at img))
             = Inr (tabulate (w img) (h img) (dp_val (w img) (energy_at img)))"
proof -
  let ?W = "w img" and ?H = "h img"
  let ?ene = "tabulate ?W ?H (energy_at img)"
  have sz: "?W * ?H < uint_size" using wf by (simp add: wf_matrix_def)
  have "dp_table img ?ene = Inr (tabulate ?W ?H (dp_val ?W (px ?ene)))"
    using wf sz by (intro dp_table_eq) simp_all
  also have "tabulate ?W ?H (dp_val ?W (px ?ene)) = tabulate ?W ?H (dp_val ?W (energy_at img))"
    by (intro tabulate_cong dp_val_cong) auto
  finally show ?thesis using wf by (simp add: energy_eq)
qed

lemma best_seam_eq:
  assumes wf: "wf_matrix img" and H: "0 < h img"
  shows "best_seam img =
           Some (Inr (fst (seam_ref (dp_val (w img) (energy_at img)) (w img) (h img)),
                      rev (snd (seam_ref (dp_val (w img) (energy_at img)) (w img) (h img)))))"
proof -
  let ?W = "w img" and ?H = "h img"
  let ?T = "dp_val ?W (energy_at img)"
  have sz: "?W * ?H < uint_size" using wf by (simp add: wf_matrix_def)
  have scan: "pforM [0..<?W] (scan_column (tabulate ?W ?H ?T) ?H) (Infinity, [])
                = Some (Inr (seam_ref ?T ?W ?H))"
    using scan_dp [of ?W ?H "energy_at img" "[0..<?W]" "(Infinity, [])", OF sz _ H]
    by (simp add: seam_ref_def atLeast0LessThan)
  show ?thesis using energy_table [OF wf]
    by (simp add: best_seam_def scan split: prod.split)
qed

lemma walk_full_dp:
  assumes sz: "W * H < uint_size"
  shows "x < W \<Longrightarrow> y < H \<Longrightarrow>
    walk_full (tabulate W H (dp_val W E)) x y acc ps
      = Some (Inr (acc + path_cost (dp_val W E) x y, ps @ trail (dp_val W E) x y))"
proof (induction y arbitrary: x acc ps)
  case 0
  then show ?case using sz by (subst walk_full.simps) (simp add: Let_def)
next
  case (Suc y)
  obtain d
    where dv: "dp_val W E x (Suc y) = (Fin (E x (Suc y) + E (next_col x d) y), Some d)"
      and nx: "next_col x d < W" and dl: "d = Left \<Longrightarrow> 0 < x" and dr: "d = Right \<Longrightarrow> x + 1 < W"
    using dp_step [where E = E and y = y, OF Suc.prems(1)] by blast
  have at: "matrix_at (tabulate W H (dp_val W E)) x (Suc y) = Inr (fst (dp_val W E x (Suc y)), Some d)"
    using Suc.prems sz dv by simp
  have ui: "d = Right \<Longrightarrow> uinc x = x + 1" using uinc_in_range [OF dr sz Suc.prems(2)] by simp
  have "walk_full (tabulate W H (dp_val W E)) x (Suc y) acc ps
        = walk_full (tabulate W H (dp_val W E)) (next_col x d) y (acc + fst (dp_val W E x (Suc y))) (ps @ [x])"
    by (subst walk_full.simps) (cases d; use at dl ui in \<open>simp add: next_col_def usub1_pos Let_def\<close>)
  with Suc.IH [OF nx] Suc.prems dv show ?case by (simp add: step_dir_def add.assoc)
qed

lemma scan_full_dp:
  assumes sz: "W * H < uint_size" and H: "0 < H"
  shows "set xs \<subseteq> {..<W} \<Longrightarrow>
    pforM xs (scan_column_full (tabulate W H (dp_val W E)) H) best
      = Some (Inr (foldl (pick (dp_val W E) (H - 1)) best xs))"
proof (induction xs arbitrary: best)
  case Nil
  then show ?case by simp
next
  case (Cons x xs)
  have "x < W" "H - 1 < H" using Cons.prems H by auto
  then have "scan_column_full (tabulate W H (dp_val W E)) H x best
               = Some (Inr (pick (dp_val W E) (H - 1) best x))"
    by (simp add: scan_column_full_def walk_full_dp [OF sz] pick_def usub1_pos H)
  with Cons show ?case by simp
qed

lemma best_seam_full_eq:
  assumes wf: "wf_matrix img" and H: "0 < h img"
  shows "best_seam_full img =
           Some (Inr (fst (seam_ref (dp_val (w img) (energy_at img)) (w img) (h img)),
                      rev (snd (seam_ref (dp_val (w img) (energy_at img)) (w img) (h img)))))"
proof -
  let ?W = "w img" and ?H = "h img"
  let ?T = "dp_val ?W (energy_at img)"
  have sz: "?W * ?H < uint_size" using wf by (simp add: wf_matrix_def)
  have scan: "pforM [0..<?W] (scan_column_full (tabulate ?W ?H ?T) ?H) (Infinity, [])
                = Some (Inr (seam_ref ?T ?W ?H))"
    using scan_full_dp [of ?W ?H "[0..<?W]" "energy_at img" "(Infinity, [])", OF sz H]
    by (simp add: seam_ref_def atLeast0LessThan)
  show ?thesis using energy_table [OF wf]
    by (simp add: best_seam_full_def scan split: prod.split)
qed

section \<open>Properties of the reference\<close>

lemma foldl_pick_le:
  "fst (foldl (pick T y) best xs) \<le> fst best \<and>
   (\<forall>x \<in> set xs. fst (foldl (pick T y) best xs) \<le> path_cost T x y)"
proof (induction xs arbitrary: best)
  case Nil
  then show ?case by simp
next
  case (Cons x xs)
  have "fst (pick T y best x) \<le> fst best" "fst (pick T y best x) \<le> path_cost T x y"
    by (auto simp: pick_def)
  with Cons.IH [of "pick T y best x"] show ?case by (auto intro: order_trans)
qed

lemma foldl_pick_cases:
  "foldl (pick T y) best xs = best \<or>
   (\<exists>x \<in> set xs. foldl (pick T y) best xs = (path_cost T x y, trail T x y))"
proof (induction xs arbitrary: best)
  case Nil
  then show ?case by simp
next
  case (Cons a xs)
  have "pick T y best a = best \<or> pick T y best a = (path_cost T a y, trail T a y)"
    by (simp add: pick_def)
  with Cons.IH [of "pick T y best a"] show ?case by auto
qed

lemma trail_valid:
  assumes "x < W"
  shows "length (trail (dp_val W E) x y) = Suc y \<and> list_all (\<lambda>c. c < W) (trail (dp_val W E) x y)
         \<and> successively (\<lambda>a c. a \<le> c + 1 \<and> c \<le> a + 1) (trail (dp_val W E) x y)"
  using assms
proof (induction y arbitrary: x)
  case 0
  then show ?case by simp
next
  case (Suc y)
  obtain d where dv: "dp_val W E x (Suc y) = (Fin (E x (Suc y) + E (next_col x d) y), Some d)"
    and nx: "next_col x d < W" and dl: "d = Left \<Longrightarrow> 0 < x"
    using dp_step [where E = E and y = y, OF Suc.prems] by blast
  have hd: "hd (trail (dp_val W E) (next_col x d) y) = next_col x d" by (cases y) simp_all
  have ne: "trail (dp_val W E) (next_col x d) y \<noteq> []" by (cases y) simp_all
  have adj: "x \<le> next_col x d + 1 \<and> next_col x d \<le> x + 1"
    using dl by (cases d) (auto simp: next_col_def)
  show ?case
    using Suc.IH [OF nx] Suc.prems dv adj hd ne
    by (simp add: step_dir_def successively_Cons list.case_eq_if)
qed

lemma seam_energy_snoc:
  "seam_energy E (s @ [c]) = seam_energy E s + E c (length s)"
  by (simp add: seam_energy_def)

lemma seam_energy_zero:
  assumes "valid_seam W H s" "\<And>x y. x < W \<Longrightarrow> y < H \<Longrightarrow> E x y = 0"
  shows "seam_energy E s = 0"
proof -
  have "E a b = 0" if "(a, b) \<in> set (zip s [0..<length s])" for a b
  proof -
    have "a \<in> set s" "b \<in> set [0..<length s]"
      using that by (auto dest: set_zip_leftD set_zip_rightD)
    then show ?thesis using assms by (auto simp: valid_seam_def list_all_iff)
  qed
  then have "\<forall>p \<in> set (zip s [0..<length s]). (\<lambda>(c, k). E c k) p = 0" by auto
  then show ?thesis unfolding seam_energy_def by (rule sum_list_map_zero)
qed

lemma path_cost_closed:
  assumes "x < W"
  shows "path_cost (dp_val W E) x y
           = Fin (2 * seam_energy E (rev (trail (dp_val W E) x y)) - E x y)"
  using assms
proof (induction y arbitrary: x)
  case 0
  then show ?case by (simp add: seam_energy_def)
next
  case (Suc y)
  obtain d where dv: "dp_val W E x (Suc y) = (Fin (E x (Suc y) + E (next_col x d) y), Some d)"
    and nx: "next_col x d < W"
    using dp_step [where E = E and y = y, OF Suc.prems] by blast
  have len: "length (rev (trail (dp_val W E) (next_col x d) y)) = Suc y"
    using trail_valid [OF nx] by simp
  show ?case
    using Suc.IH [OF nx] dv len by (simp add: step_dir_def seam_energy_snoc algebra_simps)
qed

lemma trail_hd [simp]: "hd (trail T x y) = x"
  by (cases y) simp_all

lemma path_cost_fin: "x < W \<Longrightarrow> path_cost (dp_val W E) x y < Infinity"
  by (simp add: path_cost_closed)

lemma seam_ref_pick:
  assumes "0 < W"
  obtains x where "x < W"
    and "seam_ref (dp_val W E) W H = (path_cost (dp_val W E) x (H - 1), trail (dp_val W E) x (H - 1))"
proof -
  let ?R = "seam_ref (dp_val W E) W H"
  have "fst ?R \<le> path_cost (dp_val W E) 0 (H - 1)"
    using foldl_pick_le [of "dp_val W E" "H - 1" "(Infinity, [])" "[0..<W]"] assms
    by (simp add: seam_ref_def)
  also have "\<dots> < Infinity" using assms by (rule path_cost_fin)
  finally have "?R \<noteq> (Infinity, [])" by auto
  then show ?thesis
    using foldl_pick_cases [of "dp_val W E" "H - 1" "(Infinity, [])" "[0..<W]"] that
    by (auto simp: seam_ref_def)
qed

text \<open>
  The scan over \<open>[0..<n]\<close> with the strict test keeps the leftmost column of
  least total, provided every total is finite.
\<close>

lemma foldl_pick_first_min:
  assumes "0 < n" "\<forall>x < n. path_cost T x y < Infinity"
  shows "\<exists>x < n. foldl (pick T y) (Infinity, []) [0..<n] = (path_cost T x y, trail T x y)
           \<and> (\<forall>x' < n. path_cost T x y \<le> path_cost T x' y)
           \<and> (\<forall>x' < x. path_cost T x y < path_cost T x' y)"
  using assms
proof (induction n)
  case 0
  then show ?case by simp
next
  case (Suc n)
  show ?case
  proof (cases n)
    case 0
    then show ?thesis using Suc.prems by (simp add: pick_def)
  next
    case (Suc m)
    then obtain x where x: "x < n"
      and eq: "foldl (pick T y) (Infinity, []) [0..<n] = (path_cost T x y, trail T x y)"
      and le: "\<forall>x' < n. path_cost T x y \<le> path_cost T x' y"
      and lt: "\<forall>x' < x. path_cost T x y < path_cost T x' y"
      using Suc.IH Suc.prems by auto
    have step: "foldl (pick T y) (Infinity, []) [0..<Suc n] = pick T y (path_cost T x y, trail T x y) n"
      using eq by simp
    show ?thesis
    proof (cases "path_cost T n y < path_cost T x y")
      case True
      then have "\<forall>x' < n. path_cost T n y < path_cost T x' y"
        using le by (auto intro: less_le_trans)
      moreover have "foldl (pick T y) (Infinity, []) [0..<Suc n] = (path_cost T n y, trail T n y)"
        using step True by (simp add: pick_def)
      ultimately show ?thesis using True by (auto simp: less_Suc_eq intro!: exI [of _ n])
    next
      case False
      then have "foldl (pick T y) (Infinity, []) [0..<Suc n] = (path_cost T x y, trail T x y)"
        using step by (simp add: pick_def)
      then show ?thesis using x False le lt
        by (auto simp: less_Suc_eq not_less intro!: exI [of _ x])
    qed
  qed
qed

text \<open>The result of \<open>best_seam\<close>: the reversed full path of some bottom column.\<close>

lemma best_seam_result:
  assumes "wf_matrix img" "0 < w img" "0 < h img"
  obtains x where "x < w img"
    and "best_seam img = Some (Inr (path_cost (dp_val (w img) (energy_at img)) x (h img - 1),
                                   rev (trail (dp_val (w img) (energy_at img)) x (h img - 1))))"
proof -
  let ?T = "dp_val (w img) (energy_at img)"
  obtain x where x: "x < w img"
    and R: "seam_ref ?T (w img) (h img) = (path_cost ?T x (h img - 1), trail ?T x (h img - 1))"
    using seam_ref_pick [OF assms(2)] by blast
  show ?thesis using that [OF x] best_seam_eq [OF assms(1,3)] R by simp
qed

lemma valid_seam_trail:
  "x < W \<Longrightarrow> 0 < H \<Longrightarrow> valid_seam W H (rev (trail (dp_val W E) x (H - 1)))"
  using trail_valid [of x W E "H - 1"] by (simp add: valid_seam_def list_all_rev conj_commute)

section \<open>Claims\<close>

text \<open>
  C1: on every well-formed image of positive width and height, \<open>best_seam\<close>
  returns (the back-tracking loop terminates and no index faults) and the column
  list it returns is a seam: one column per row, each inside the image, consecutive
  columns at most one apart.
\<close>

theorem best_seam_valid:
  assumes "wf_matrix img" "0 < w img" "0 < h img"
  shows "\<exists>c s. best_seam img = Some (Inr (c, s)) \<and> valid_seam (w img) (h img) s"
proof -
  obtain x where x: "x < w img" and eq: "best_seam img =
      Some (Inr (path_cost (dp_val (w img) (energy_at img)) x (h img - 1),
                 rev (trail (dp_val (w img) (energy_at img)) x (h img - 1))))"
    using best_seam_result [OF assms] by blast
  show ?thesis using eq valid_seam_trail [OF x assms(3)] by blast
qed

theorem best_seam_valid_witness:
  "wf_matrix (uniform_image 2 2 (grey (1/2))) \<and> 0 < w (uniform_image 2 2 (grey (1/2))) \<and> 0 < h (uniform_image 2 2 (grey (1/2)))
   \<and> (\<exists>c s. best_seam (uniform_image 2 2 (grey (1/2))) = Some (Inr (c, s)) \<and> valid_seam 2 2 s)"
  using best_seam_valid [of "uniform_image 2 2 (grey (1/2))"] by (simp add: uint_size_def)

text \<open>
  C2: the pruning in the back-tracking loop (abandon a column once its running total
  exceeds the best total) does not change the result: on every well-formed image of
  positive height, \<open>best_seam\<close> equals the same code without the pruning test.
\<close>

theorem best_seam_pruning_sound:
  assumes "wf_matrix img" "0 < h img"
  shows "best_seam img = best_seam_full img"
  using best_seam_eq [OF assms] best_seam_full_eq [OF assms] by simp

theorem best_seam_pruning_sound_witness:
  "wf_matrix (uniform_image 3 2 (grey (1/4))) \<and> 0 < h (uniform_image 3 2 (grey (1/4)))
   \<and> best_seam (uniform_image 3 2 (grey (1/4))) = best_seam_full (uniform_image 3 2 (grey (1/4)))"
  using best_seam_pruning_sound [of "uniform_image 3 2 (grey (1/4))"] by (simp add: uint_size_def)

text \<open>
  C7: the total that \<open>best_seam\<close> returns is not the seam's summed energy.
  Because each table cell adds the energy of its chosen neighbour to its own, the
  total is twice the seam's energy minus the energy of its bottom pixel.
\<close>

theorem best_seam_cost:
  assumes "wf_matrix img" "0 < w img" "0 < h img" "best_seam img = Some (Inr (c, s))"
  shows "c = Fin (2 * seam_energy (energy_at img) s - energy_at img (last s) (h img - 1))"
proof -
  let ?T = "dp_val (w img) (energy_at img)"
  obtain x where x: "x < w img" and eq: "best_seam img =
      Some (Inr (path_cost ?T x (h img - 1), rev (trail ?T x (h img - 1))))"
    using best_seam_result [OF assms(1-3)] by blast
  have "c = path_cost ?T x (h img - 1)" "s = rev (trail ?T x (h img - 1))"
    using eq assms(4) by simp_all
  then show ?thesis using path_cost_closed [OF x] by (simp add: last_rev)
qed

theorem best_seam_cost_witness:
  "best_seam (uniform_image 2 2 (grey (1/2))) = Some (Inr (0, [1, 0]))
   \<and> 0 = Fin (2 * seam_energy (energy_at (uniform_image 2 2 (grey (1/2)))) [1, 0]
                - energy_at (uniform_image 2 2 (grey (1/2))) (last [1, 0]) (h (uniform_image 2 2 (grey (1/2))) - 1))"
proof -
  have run: "best_seam (uniform_image 2 2 (grey (1/2))) = Some (Inr (0, [1, 0]))"
    by (simp add: best_seam_eq uint_size_def seam_ref_def pick_def dp_val_def
        energy_at_def step_dir_def next_col_def Let_def upt_rec)
  show ?thesis
    using best_seam_cost [of "uniform_image 2 2 (grey (1/2))" 0 "[1, 0]"] run by (simp add: uint_size_def)
qed

text \<open>
  C3: the back-tracking loop terminates and does not fault on the table the code
  builds: for every bound and every start cell inside a well-formed image it returns
  a value.
\<close>

theorem walk_terminates:
  assumes "wf_matrix img" "x < w img" "y < h img"
  shows "\<exists>tbl res. rbind (energy img) (dp_table img) = Inr tbl
           \<and> walk tbl best x y 0 [] = Some (Inr res)"
proof -
  have sz: "w img * h img < uint_size" using assms(1) by (simp add: wf_matrix_def)
  obtain res where "walk (tabulate (w img) (h img) (dp_val (w img) (energy_at img))) best x y 0 [] = Some (Inr res)"
    using walk_dp [of "w img" "h img" "energy_at img", OF sz _ assms(2,3),
        where acc = 0 and best = best and ps = "[]"] by auto
  then show ?thesis using energy_table [OF assms(1)] by auto
qed

theorem walk_terminates_witness:
  "wf_matrix (uniform_image 2 3 (grey 1)) \<and> (1::nat) < w (uniform_image 2 3 (grey 1)) \<and> (2::nat) < h (uniform_image 2 3 (grey 1))
   \<and> (\<exists>tbl res. rbind (energy (uniform_image 2 3 (grey 1))) (dp_table (uniform_image 2 3 (grey 1))) = Inr tbl
        \<and> walk tbl 0 1 2 0 [] = Some (Inr res))"
  using walk_terminates [of "uniform_image 2 3 (grey 1)" 1 2 0] by (simp add: uint_size_def)

text \<open>
  C8: the column list \<open>best_seam\<close> returns is the reversed path from the
  bottom column of least total, and of the columns of least total the leftmost:
  the strict \<open><\<close> in the scan keeps the first one found (spec.md section 4.3).
  The total of a column is the sum the walk accumulates from it,
  \<open>path_cost\<close> over the table \<open>dp_val\<close> the code computes.
\<close>

theorem best_seam_first_cheapest:
  assumes "wf_matrix img" "0 < w img" "0 < h img"
  shows "\<exists>x < w img.
           best_seam img = Some (Inr (path_cost (dp_val (w img) (energy_at img)) x (h img - 1),
                                      rev (trail (dp_val (w img) (energy_at img)) x (h img - 1))))
         \<and> (\<forall>x' < w img. path_cost (dp_val (w img) (energy_at img)) x (h img - 1)
                          \<le> path_cost (dp_val (w img) (energy_at img)) x' (h img - 1))
         \<and> (\<forall>x' < x. path_cost (dp_val (w img) (energy_at img)) x (h img - 1)
                      < path_cost (dp_val (w img) (energy_at img)) x' (h img - 1))"
proof -
  let ?T = "dp_val (w img) (energy_at img)"
  have fin: "\<forall>x < w img. path_cost ?T x (h img - 1) < Infinity" by (simp add: path_cost_fin)
  from foldl_pick_first_min [OF assms(2) fin] obtain x where "x < w img"
    and "seam_ref ?T (w img) (h img) = (path_cost ?T x (h img - 1), trail ?T x (h img - 1))"
    and "\<forall>x' < w img. path_cost ?T x (h img - 1) \<le> path_cost ?T x' (h img - 1)"
    and "\<forall>x' < x. path_cost ?T x (h img - 1) < path_cost ?T x' (h img - 1)"
    unfolding seam_ref_def by blast
  then show ?thesis using best_seam_eq [OF assms(1,3)] by auto
qed

theorem best_seam_first_cheapest_witness:
  "\<exists>x < 2.
     best_seam (uniform_image 2 2 (grey 0)) = Some (Inr (path_cost (dp_val 2 (energy_at (uniform_image 2 2 (grey 0)))) x 1,
                                  rev (trail (dp_val 2 (energy_at (uniform_image 2 2 (grey 0)))) x 1)))
     \<and> (\<forall>x' < x. path_cost (dp_val 2 (energy_at (uniform_image 2 2 (grey 0)))) x 1
                  < path_cost (dp_val 2 (energy_at (uniform_image 2 2 (grey 0)))) x' 1)"
  using best_seam_first_cheapest [of "uniform_image 2 2 (grey 0)"] by (auto simp: uint_size_def)

end
