(* ===== verification/Carve.thy ===== *)
theory Carve
  imports Seam_Walk
begin

text \<open>
  \<open>carve\<close> and \<open>carven\<close> of src/seam.rs (lines 132--155).  \<open>carve\<close> finds the
  best seam, allocates a black image one column narrower (\<open>image.width() - 1\<close>
  in \<open>uint\<close>, so it wraps on a width-0 image) and copies every pixel left of the
  seam to the same place and every pixel right of it one column to the left, reading
  \<open>seam[y]\<close> with Rust's bounds check.  \<open>carven\<close> repeats it \<open>n\<close> times on
  its own output (\<open>for n.times\<close>).

  \<open>remove_seam\<close> is the specification (spec.md section 4.4): the image without
  the seam's pixel in each row.  \<open>carve_loop_eq\<close> shows that the copy loop
  computes it for every valid seam; the claims then cover one carve, \<open>n\<close>
  carves, and the degenerate widths and heights the code does not guard.
\<close>

definition carve :: "image \<Rightarrow> image pres" where
  "carve img =
     pbind (best_seam img) (\<lambda>(_, seam).
       let i = Image_make (usub1 (width img)) (height img) in
       Some (for_range 0 (height img) (\<lambda>y i.
               for_range 0 (width img) (\<lambda>x i.
                 rbind (vec_get seam y) (\<lambda>sy.
                   if x < sy then rbind (matrix_at img x y) (matrix_set i x y)
                   else if x > sy then rbind (matrix_at img x y) (matrix_set i (x - 1) y)
                   else Inr i)) i) i))"

fun carve_times :: "nat \<Rightarrow> image \<Rightarrow> image pres" where
  "carve_times 0 im = Some (Inr im)"
| "carve_times (Suc n) im = pbind (carve im) (carve_times n)"

definition carven :: "image \<Rightarrow> nat \<Rightarrow> image pres" where
  "carven img n = carve_times n img"

section \<open>Specification\<close>

definition remove_seam :: "image \<Rightarrow> nat list \<Rightarrow> image" where
  "remove_seam img s =
     tabulate (w img - 1) (h img) (\<lambda>x y. px img (if x < s ! y then x else x + 1) y)"

section \<open>The copy loop computes the specification\<close>

lemma narrow_size: "wf_matrix img \<Longrightarrow> (w img - 1) * h img < uint_size"
proof -
  assume "wf_matrix img"
  then have "w img * h img < uint_size" by (simp add: wf_matrix_def)
  moreover have "(w img - 1) * h img \<le> w img * h img" by (simp add: mult_le_mono1)
  ultimately show ?thesis by linarith
qed

lemma forM_map_Suc: "forM (map Suc xs) f st = forM xs (\<lambda>x. f (Suc x)) st"
  by (induction xs arbitrary: st) simp_all

text \<open>
  One row: the loop over the source columns performs exactly the writes of the
  standard fill loop over the target columns.
\<close>

lemma carve_row:
  assumes wf: "wf_matrix img" and y: "y < h img" and sy: "sy < w img"
  shows "forM [0..<w img] (\<lambda>x i.
           rbind (Inr sy) (\<lambda>sy.
             if x < sy then rbind (matrix_at img x y) (matrix_set i x y)
             else if x > sy then rbind (matrix_at img x y) (matrix_set i (x - 1) y)
             else Inr i)) i0
       = forM [0..<w img - 1] (\<lambda>x i.
           rbind (Inr (px img (if x < sy then x else x + 1) y)) (matrix_set i x y)) i0"
  (is "forM _ ?B i0 = forM _ ?S i0")
proof -
  have "[0..<w img] = [0..<sy] @ [sy..<w img]"
    using upt_add_eq_append [of 0 sy "w img - sy"] sy by simp
  also have "[sy..<w img] = sy # map Suc [sy..<w img - 1]"
    using sy by (simp add: map_Suc_upt upt_conv_Cons)
  finally have split: "[0..<w img] = [0..<sy] @ sy # map Suc [sy..<w img - 1]" .
  have split': "[0..<w img - Suc 0] = [0..<sy] @ [sy..<w img - Suc 0]"
    using upt_add_eq_append [of 0 sy "w img - 1 - sy"] sy by simp
  have left: "forM [0..<sy] ?B st = forM [0..<sy] ?S st" for st
    using wf y sy by (intro forM_cong) auto
  have right: "forM [sy..<w img - 1] (\<lambda>x. ?B (Suc x)) st = forM [sy..<w img - 1] ?S st" for st
    using wf y by (intro forM_cong) auto
  show ?thesis
    using left right by (simp add: split split' forM_append forM_map_Suc)
qed

lemma carve_loop_eq:
  assumes wf: "wf_matrix img" and W: "0 < w img"
    and s: "length s = h img" "list_all (\<lambda>c. c < w img) s"
  shows "for_range 0 (height img) (\<lambda>y i.
           for_range 0 (width img) (\<lambda>x i.
             rbind (vec_get s y) (\<lambda>sy.
               if x < sy then rbind (matrix_at img x y) (matrix_set i x y)
               else if x > sy then rbind (matrix_at img x y) (matrix_set i (x - 1) y)
               else Inr i)) i) (Image_make (usub1 (width img)) (height img))
         = Inr (remove_seam img s)"
  (is "for_range 0 _ (\<lambda>y. for_range 0 _ (?B y)) _ = _")
proof -
  let ?S = "\<lambda>y x i. rbind (Inr (px img (if x < s ! y then x else x + 1) y)) (matrix_set i x y)"
  have sz: "(w img - 1) * h img < uint_size" using wf by (rule narrow_size)
  have rows: "for_range 0 (w img) (?B y) i0 = for_range 0 (w img - 1) (?S y) i0"
    if "y < h img" for y i0
  proof -
    have "s ! y < w img" using s that by (simp add: list_all_length)
    then show ?thesis
      using carve_row [OF wf that] s that by (simp add: for_range_def)
  qed
  have "for_range 0 (h img) (\<lambda>y. for_range 0 (w img) (?B y)) i0
        = for_range 0 (h img) (\<lambda>y. for_range 0 (w img - 1) (?S y)) i0" for i0
    unfolding for_range_def [of 0 "h img"] by (intro forM_cong ext) (simp add: rows)
  then have "for_range 0 (height img) (\<lambda>y. for_range 0 (width img) (?B y))
               (Image_make (usub1 (width img)) (height img))
        = fill (w img - 1) (h img) (\<lambda>x y. Inr (px img (if x < s ! y then x else x + 1) y))
            (new_matrix (w img - 1) (h img) black)"
    using W by (simp add: fill_def width_def height_def Image_make_def usub1_pos)
  also have "\<dots> = Inr (remove_seam img s)"
    using sz by (simp add: fill_new_matrix remove_seam_def)
  finally show ?thesis .
qed

lemma carve_eq:
  assumes wf: "wf_matrix img" and W: "0 < w img"
    and bs: "best_seam img = Some (Inr (c, s))" and s: "valid_seam (w img) (h img) s"
  shows "carve img = Some (Inr (remove_seam img s))"
  using carve_loop_eq [OF wf W] s bs by (simp add: carve_def valid_seam_def)

lemma carve_ok:
  assumes "wf_matrix img" "0 < w img" "0 < h img"
  obtains s where "valid_seam (w img) (h img) s" "carve img = Some (Inr (remove_seam img s))"
    and "\<exists>c. best_seam img = Some (Inr (c, s))"
proof -
  obtain x where x: "x < w img" and eq: "best_seam img =
      Some (Inr (path_cost (dp_val (w img) (energy_at img)) x (h img - 1),
                 rev (trail (dp_val (w img) (energy_at img)) x (h img - 1))))"
    using best_seam_result [OF assms] by blast
  have v: "valid_seam (w img) (h img) (rev (trail (dp_val (w img) (energy_at img)) x (h img - 1)))"
    using x assms(3) by (rule valid_seam_trail)
  show ?thesis by (rule that [OF v carve_eq [OF assms(1,2) eq v]]) (use eq in blast)
qed

lemma wf_remove_seam:
  "wf_matrix img \<Longrightarrow> wf_matrix (remove_seam img s)"
  unfolding remove_seam_def by (rule wf_tabulate [OF narrow_size])

lemma fill_empty_rows: "fill 0 H f m = Inr m"
  by (simp add: fill_def for_range_def forM_Inr)

text \<open>\<open>n\<close> carves of a well-formed image of positive height, \<open>n\<close> at most its width.\<close>

lemma carve_times_shape:
  assumes "wf_matrix img" "0 < h img" "n \<le> w img"
  shows "\<exists>img'. carve_times n img = Some (Inr img') \<and> wf_matrix img'
           \<and> w img' = w img - n \<and> h img' = h img"
  using assms
proof (induction n arbitrary: img)
  case 0
  then show ?case by simp
next
  case (Suc n)
  then have "0 < w img" by simp
  then obtain s where cv: "carve img = Some (Inr (remove_seam img s))"
    using carve_ok [OF Suc.prems(1) _ Suc.prems(2)] by blast
  have "wf_matrix (remove_seam img s)" "0 < h (remove_seam img s)" "n \<le> w (remove_seam img s)"
    using Suc.prems wf_remove_seam by (auto simp: remove_seam_def)
  from Suc.IH [OF this] cv show ?case by (auto simp: remove_seam_def)
qed

section \<open>Claims\<close>

text \<open>
  C4: carving a well-formed image of positive width and height returns a
  well-formed image one column narrower and as high, in which each row is the source
  row without the pixel of the seam that \<open>best_seam\<close> chose: the pixels left of
  the seam are unchanged and those right of it move one column to the left.
\<close>

theorem carve_correct:
  assumes "wf_matrix img" "0 < w img" "0 < h img"
  shows "\<exists>c s img'. best_seam img = Some (Inr (c, s)) \<and> valid_seam (w img) (h img) s
           \<and> carve img = Some (Inr img') \<and> wf_matrix img'
           \<and> w img' = w img - 1 \<and> h img' = h img
           \<and> (\<forall>x < w img - 1. \<forall>y < h img. px img' x y = px img (if x < s ! y then x else x + 1) y)"
proof -
  obtain s where s: "valid_seam (w img) (h img) s"
    and cv: "carve img = Some (Inr (remove_seam img s))"
    and bs: "\<exists>c. best_seam img = Some (Inr (c, s))"
    using carve_ok [OF assms] by blast
  show ?thesis
    using s cv bs wf_remove_seam [OF assms(1), of s] by (auto simp: remove_seam_def)
qed

theorem carve_correct_witness:
  "wf_matrix (uniform_image 3 2 (grey 1)) \<and> 0 < w (uniform_image 3 2 (grey 1)) \<and> 0 < h (uniform_image 3 2 (grey 1))
   \<and> (\<exists>c s img'. best_seam (uniform_image 3 2 (grey 1)) = Some (Inr (c, s)) \<and> valid_seam 3 2 s
        \<and> carve (uniform_image 3 2 (grey 1)) = Some (Inr img') \<and> wf_matrix img'
        \<and> w img' = 2 \<and> h img' = 2
        \<and> (\<forall>x < 2. \<forall>y < 2. px img' x y = px (uniform_image 3 2 (grey 1)) (if x < s ! y then x else x + 1) y))"
  using carve_correct [of "uniform_image 3 2 (grey 1)"] by (simp add: uint_size_def)

text \<open>
  C12: carving \<open>n\<close> columns from a well-formed image of positive height with
  \<open>n\<close> at most its width returns (no fault, no divergence) a well-formed image
  \<open>n\<close> columns narrower and as high.  In particular \<open>carven\<close> of the full
  width returns an image of width 0: the code has no DimensionError.
\<close>

theorem carven_shape:
  assumes "wf_matrix img" "0 < h img" "n \<le> w img"
  shows "\<exists>img'. carven img n = Some (Inr img') \<and> wf_matrix img'
           \<and> w img' = w img - n \<and> h img' = h img"
  unfolding carven_def by (rule carve_times_shape [OF assms])

theorem carven_shape_witness:
  "wf_matrix (uniform_image 2 2 (grey 0)) \<and> 0 < h (uniform_image 2 2 (grey 0)) \<and> (2::nat) \<le> w (uniform_image 2 2 (grey 0))
   \<and> (\<exists>img'. carven (uniform_image 2 2 (grey 0)) 2 = Some (Inr img') \<and> wf_matrix img'
        \<and> w img' = 0 \<and> h img' = 2)"
  using carven_shape [of "uniform_image 2 2 (grey 0)" 2] by (simp add: uint_size_def)

text \<open>
  C14: \<open>carve\<close> of an empty image (width and height 0) does not stop with
  a dimension error: \<open>image.width() - 1\<close> wraps in \<open>uint\<close>, and it returns
  an empty image whose width is 2^64 - 1 (the allocation is of \<open>(2^64 - 1) * 0\<close>
  pixels, none).
\<close>

theorem carve_zero_width:
  assumes "w img = 0" "h img = 0"
  shows "carve img = Some (Inr \<lparr>data = [], w = uint_size - 1, h = 0\<rparr>)"
proof -
  have "best_seam img = Some (Inr (Infinity, []))"
    using assms by (simp add: best_seam_def energy_def dp_table_def fill_empty_rows)
  then show ?thesis
    using assms by (simp add: carve_def width_def height_def usub1_def for_range_def
        Image_make_def new_matrix_def)
qed

theorem carve_zero_width_witness:
  "carve (\<lparr>data = [], w = 0, h = 0\<rparr> :: image) = Some (Inr \<lparr>data = [], w = uint_size - 1, h = 0\<rparr>)"
  using carve_zero_width [of "\<lparr>data = [], w = 0, h = 0\<rparr> :: image"] by simp

text \<open>
  C15: on a well-formed image of height 0 and positive width, \<open>carve\<close> stops with
  an index fault: the back-tracking loop starts in row \<open>self.h - 1\<close>, which wraps,
  and reads outside the empty table.
\<close>

theorem carve_zero_height:
  assumes "wf_matrix img" "h img = 0" "0 < w img"
  shows "carve img = Some (Inl IndexFault)"
proof -
  have E: "energy img = Inr (new_matrix (w img) 0 0)"
    using assms by (simp add: energy_def fill_def for_range_def)
  have T: "dp_table img (new_matrix (w img) 0 0) = Inr (new_matrix (w img) 0 (0, None))"
    using assms by (simp add: dp_table_def fill_def for_range_def)
  have "walk (new_matrix (w img) 0 (0, None)) Infinity 0 (usub1 0) 0 [] = Some (Inl IndexFault)"
    by (subst walk.simps) (simp add: matrix_at_def vec_get_def new_matrix_def)
  then have "best_seam img = Some (Inl IndexFault)"
    using assms E T by (simp add: best_seam_def upt_conv_Cons scan_column_def)
  then show ?thesis by (simp add: carve_def)
qed

theorem carve_zero_height_witness:
  "wf_matrix (\<lparr>data = [], w = 2, h = 0\<rparr> :: image) \<and> h (\<lparr>data = [], w = 2, h = 0\<rparr> :: image) = 0
   \<and> 0 < w (\<lparr>data = [], w = 2, h = 0\<rparr> :: image)
   \<and> carve (\<lparr>data = [], w = 2, h = 0\<rparr> :: image) = Some (Inl IndexFault)"
  using carve_zero_height [of "\<lparr>data = [], w = 2, h = 0\<rparr> :: image"]
  by (simp add: wf_matrix_def uint_size_def)

end
