(* ===== verification/Ppm.thy ===== *)
theory Ppm
  imports Color
begin

text \<open>
  The PPM text format of src/seam.rs (lines 157--215): \<open>round\<close>,
  \<open>Image::save_ppm\<close> and \<open>load_ppm\<close>.  A file is the list of its lines:
  \<open>write_line\<close> appends one, \<open>read_line\<close> takes the next one and returns the
  empty string at the end of the file, \<open>eof\<close> holds when no line is left.
  Numbers are printed in decimal (\<open>fmt!\<close> with \<open>%u\<close> and \<open>%d\<close>); the
  library's \<open>uint::from_str\<close> accepts a non-empty string of decimal digits and
  computes its value in \<open>uint\<close>; \<open>str::split_char\<close> splits at every
  separator and keeps the empty fields.
\<close>

section \<open>Numbers and strings\<close>

text \<open>\<open>f as int\<close> truncates toward zero; \<open>round\<close> adds one when the
  remainder is at least one half.\<close>

definition trunc_int :: "real \<Rightarrow> int" where
  "trunc_int f = (if 0 \<le> f then \<lfloor>f\<rfloor> else \<lceil>f\<rceil>)"

definition round_f :: "real \<Rightarrow> int" where
  "round_f f = (let rem = f - of_int (trunc_int f) in
                if rem \<ge> 0.5 then trunc_int f + 1 else trunc_int f)"

definition digit_char :: "nat \<Rightarrow> char" where
  "digit_char d = ''0123456789'' ! d"

fun nat_str :: "nat \<Rightarrow> string" where
  "nat_str n = (if n < 10 then [digit_char n] else nat_str (n div 10) @ [digit_char (n mod 10)])"

declare nat_str.simps [simp del]

definition int_str :: "int \<Rightarrow> string" where
  "int_str i = (if i < 0 then CHR ''-'' # nat_str (nat (- i)) else nat_str (nat i))"

definition is_digit :: "char \<Rightarrow> bool" where
  "is_digit c \<longleftrightarrow> (48::nat) \<le> of_char c \<and> of_char c < (58::nat)"

definition digit_val :: "char \<Rightarrow> nat" where
  "digit_val c = of_char c - 48"

definition uint_from_str :: "string \<Rightarrow> nat option" where
  "uint_from_str s =
     (if s \<noteq> [] \<and> list_all is_digit s
      then Some (foldl (\<lambda>n c. n * 10 + digit_val c) 0 s mod uint_size) else None)"

fun split_char :: "char \<Rightarrow> string \<Rightarrow> string list" where
  "split_char c [] = [[]]"
| "split_char c (x # xs) =
     (if x = c then [] # split_char c xs
      else (let r = split_char c xs in (x # hd r) # tl r))"

section \<open>Writing\<close>

text \<open>The line of one pixel: each channel scaled by 255, rounded, printed.\<close>

definition ppm_px_line :: "color \<Rightarrow> string" where
  "ppm_px_line col =
     (let color = color_map (\<lambda>c. c * 255) col;
          c = [round_f (r color), round_f (g color), round_f (b color)]
      in int_str (c ! 0) @ '' '' @ int_str (c ! 1) @ '' '' @ int_str (c ! 2))"

definition ppm_header :: "nat \<Rightarrow> nat \<Rightarrow> string list" where
  "ppm_header wd ht = [''P3'', nat_str wd @ '' '' @ nat_str ht, ''255'']"

definition save_ppm :: "image \<Rightarrow> string list res" where
  "save_ppm img =
     for_range 0 (h img) (\<lambda>y out.
       for_range 0 (w img) (\<lambda>x out.
         rbind (matrix_at img x y) (\<lambda>col. Inr (out @ [ppm_px_line col]))) out)
       (ppm_header (w img) (h img))"

section \<open>Reading\<close>

definition read_line :: "string list \<Rightarrow> string \<times> string list" where
  "read_line rd = (case rd of [] \<Rightarrow> ([], []) | l # ls \<Rightarrow> (l, ls))"

text \<open>
  A \<open>for\<close> loop whose body may \<open>return\<close> from the enclosing function:
  \<open>Inl\<close> is the returned value, \<open>Inr\<close> the state for the next iteration.
\<close>

fun for_exit :: "nat list \<Rightarrow> (nat \<Rightarrow> 's \<Rightarrow> ('r + 's) res) \<Rightarrow> 's \<Rightarrow> ('r + 's) res" where
  "for_exit [] f st = Inr (Inr st)"
| "for_exit (i # is) f st =
     rbind (f i st) (\<lambda>v. case v of Inl x \<Rightarrow> Inr (Inl x) | Inr st' \<Rightarrow> for_exit is f st')"

text \<open>
  One iteration of the inner loop of \<open>load_ppm\<close> (lines 195--209): parse the
  \<open>i\<close>-th triple of the line, store the colour at \<open>(cx, cy)\<close>, advance the
  cursor, and return the image once the last row is complete.
\<close>

definition load_px :: "real \<Rightarrow> string list \<Rightarrow> nat \<Rightarrow> image \<times> nat \<times> nat
    \<Rightarrow> (image + image \<times> nat \<times> nat) res" where
  "load_px mx cs i st =
     (case st of (im, cx, cy) \<Rightarrow>
       rbind (vec_get cs (3 * i)) (\<lambda>s0. rbind (opt_get (uint_from_str s0)) (\<lambda>u0.
       rbind (vec_get cs (3 * i + 1)) (\<lambda>s1. rbind (opt_get (uint_from_str s1)) (\<lambda>u1.
       rbind (vec_get cs (3 * i + 2)) (\<lambda>s2. rbind (opt_get (uint_from_str s2)) (\<lambda>u2.
       let color = \<lparr>r = real u0 / mx, g = real u1 / mx, b = real u2 / mx\<rparr> in
       rbind (matrix_set im cx cy color) (\<lambda>im.
         let cx = uinc cx in
         if cx = width im then
           (let cy = uinc cy in
            if cy = height im then Inr (Inl im) else Inr (Inr (im, 0, cy)))
         else Inr (Inr (im, cx, cy))))))))))"

text \<open>The \<open>while !rd.eof()\<close> loop (lines 192--211), one line per iteration.\<close>

fun load_lines :: "real \<Rightarrow> string list \<Rightarrow> image \<Rightarrow> nat \<Rightarrow> nat \<Rightarrow> (string + image) res" where
  "load_lines mx [] im cx cy = Inr (Inl ''image doesn't contain enough pixel data'')"
| "load_lines mx (l # ls) im cx cy =
     (let cs = split_char CHR '' '' l in
      rbind (for_exit [0..<length cs div 3] (load_px mx cs) (im, cx, cy)) (\<lambda>v.
        case v of
          Inl img \<Rightarrow> Inr (Inr img)
        | Inr (im, cx, cy) \<Rightarrow> load_lines mx ls im cx cy))"

definition load_ppm :: "string list \<Rightarrow> (string + image) res" where
  "load_ppm rd0 =
     (let (l1, rd1) = read_line rd0 in
      if ''P3'' \<noteq> l1 then Inr (Inl ''image is not of type P3'')
      else
        (let (l2, rd2) = read_line rd1; dims = split_char CHR '' '' l2 in
         rbind (vec_get dims 0) (\<lambda>d0. rbind (opt_get (uint_from_str d0)) (\<lambda>wd.
         rbind (vec_get dims 1) (\<lambda>d1. rbind (opt_get (uint_from_str d1)) (\<lambda>ht.
         let im = Image_make wd ht; (l3, rd3) = read_line rd2 in
         rbind (opt_get (uint_from_str l3)) (\<lambda>mx.
         load_lines (real mx) rd3 im 0 0)))))))"

section \<open>Exactly representable colours\<close>

text \<open>
  A channel survives the round trip through the file when it lies in [0, 1]
  and is a multiple of 1/255, the maximum \<open>save_ppm\<close> writes.
\<close>

definition exact_channel :: "real \<Rightarrow> bool" where
  "exact_channel v \<longleftrightarrow> 0 \<le> v \<and> v \<le> 1 \<and> v * 255 = of_int \<lfloor>v * 255\<rfloor>"

definition exact_color :: "color \<Rightarrow> bool" where
  "exact_color c \<longleftrightarrow> exact_channel (r c) \<and> exact_channel (g c) \<and> exact_channel (b c)"

text \<open>
  Any colour: its line is read back when no channel rounds below 0, and the
  colour read back has the channels the line holds, divided by 255.
\<close>

definition reloadable :: "color \<Rightarrow> bool" where
  "reloadable c \<longleftrightarrow> 0 \<le> round_f (r c * 255) \<and> 0 \<le> round_f (g c * 255) \<and> 0 \<le> round_f (b c * 255)"

definition decoded :: "color \<Rightarrow> color" where
  "decoded c = \<lparr>r = real (nat (round_f (r c * 255)) mod uint_size) / 255,
                g = real (nat (round_f (g c * 255)) mod uint_size) / 255,
                b = real (nat (round_f (b c * 255)) mod uint_size) / 255\<rparr>"

section \<open>Numbers and strings\<close>

lemma digit_char_ok: "d < 10 \<Longrightarrow> is_digit (digit_char d) \<and> digit_val (digit_char d) = d"
proof -
  assume "d < 10"
  then have "d \<in> {0, 1, 2, 3, 4, 5, 6, 7, 8, 9}" by auto
  then show ?thesis by (auto simp: digit_char_def is_digit_def digit_val_def)
qed

lemma nat_str_digits: "list_all is_digit (nat_str n) \<and> nat_str n \<noteq> []
   \<and> foldl (\<lambda>n c. n * 10 + digit_val c) 0 (nat_str n) = n"
proof (induction n rule: nat_str.induct)
  case (1 n)
  show ?case
  proof (cases "n < 10")
    case True
    then show ?thesis using digit_char_ok [OF True] by (simp add: nat_str.simps)
  next
    case False
    have "n mod 10 < 10" by simp
    note d = digit_char_ok [OF this]
    have "n div 10 * 10 + n mod 10 = n" by simp
    with False 1 d show ?thesis by (simp add: nat_str.simps [of n])
  qed
qed

lemma uint_from_nat_str: "n < uint_size \<Longrightarrow> uint_from_str (nat_str n) = Some n"
  using nat_str_digits [of n] by (simp add: uint_from_str_def)

lemma space_not_digit: "c \<in> set (nat_str n) \<Longrightarrow> c \<noteq> CHR '' ''"
  using nat_str_digits [of n] by (auto simp: list_all_iff is_digit_def)

lemma split_char_none: "c \<notin> set xs \<Longrightarrow> split_char c xs = [xs]"
  by (induction xs) auto

lemma split_char_append:
  "c \<notin> set xs \<Longrightarrow> split_char c (xs @ c # ys) = xs # split_char c ys"
  by (induction xs) auto

lemma round_f_nonneg: "0 \<le> f \<Longrightarrow> round_f f = \<lfloor>f + 1 / 2\<rfloor>"
proof -
  assume f: "0 \<le> f"
  have fl: "of_int \<lfloor>f\<rfloor> \<le> f" "f < of_int \<lfloor>f\<rfloor> + 1" by linarith+
  show ?thesis
  proof (cases "f - of_int \<lfloor>f\<rfloor> \<ge> 1 / 2")
    case True
    then have "\<lfloor>f + 1 / 2\<rfloor> = \<lfloor>f\<rfloor> + 1" using fl by linarith
    then show ?thesis using f True by (simp add: round_f_def trunc_int_def)
  next
    case False
    then have "\<lfloor>f + 1 / 2\<rfloor> = \<lfloor>f\<rfloor>" using fl by linarith
    then show ?thesis using f False by (simp add: round_f_def trunc_int_def)
  qed
qed

lemma round_f_nat [simp]: "round_f (real k) = int k"
  by (simp add: round_f_nonneg)

lemma round_f_numeral [simp]: "round_f (numeral k) = numeral k" "round_f 0 = 0"
  using round_f_nat [of "numeral k"] round_f_nat [of 0] by simp_all

section \<open>Writing a well-formed image\<close>

lemma save_ppm_eq:
  assumes wf: "wf_matrix img"
  shows "save_ppm img = Inr (ppm_header (w img) (h img) @ map ppm_px_line (data img))"
proof -
  have row: "forM [0..<w img] (\<lambda>x out. rbind (matrix_at img x y) (\<lambda>col. Inr (out @ [ppm_px_line col]))) out
        = Inr (out @ map (\<lambda>x. ppm_px_line (px img x y)) [0..<w img])" if "y < h img" for y out
  proof -
    have "forM [0..<w img] (\<lambda>x out. rbind (matrix_at img x y) (\<lambda>col. Inr (out @ [ppm_px_line col]))) out
        = forM [0..<w img] (\<lambda>x out. Inr (out @ [ppm_px_line (px img x y)])) out"
      using wf that by (intro forM_cong ext) simp
    then show ?thesis by (simp add: forM_append_out concat_map_singleton)
  qed
  have "save_ppm img = forM [0..<h img] (\<lambda>y out. Inr (out @ map (\<lambda>x. ppm_px_line (px img x y)) [0..<w img]))
                         (ppm_header (w img) (h img))"
    unfolding save_ppm_def for_range_def by (intro forM_cong ext) (simp add: row)
  also have "\<dots> = Inr (ppm_header (w img) (h img) @ map ppm_px_line (rows (w img) (h img) (px img)))"
    by (simp add: forM_append_out rows_def map_concat comp_def)
  finally show ?thesis using wf by (simp add: rows_px)
qed

lemma round_f_neg: "f < 0 \<Longrightarrow> round_f f = \<lceil>f\<rceil>"
proof -
  assume "f < 0"
  moreover have "\<not> f - of_int \<lceil>f\<rceil> \<ge> 0.5" by linarith
  ultimately show ?thesis unfolding round_f_def trunc_int_def Let_def by auto
qed

section \<open>Reading back\<close>

lemma uint_from_nat_str_mod: "uint_from_str (nat_str n) = Some (n mod uint_size)"
  using nat_str_digits [of n] by (simp add: uint_from_str_def)

lemma int_str_parse:
  "uint_from_str (int_str i) = (if 0 \<le> i then Some (nat i mod uint_size) else None)"
proof (cases "0 \<le> i")
  case True
  then show ?thesis by (simp add: int_str_def uint_from_nat_str_mod)
next
  case False
  then show ?thesis by (simp add: int_str_def uint_from_str_def is_digit_def)
qed

lemma exact_channel_nat:
  assumes "exact_channel v"
  obtains k where "k \<le> 255" "v = real k / 255" "round_f (v * 255) = int k"
proof -
  define k where "k = nat \<lfloor>v * 255\<rfloor>"
  have v: "0 \<le> v" "v \<le> 1" "v * 255 = of_int \<lfloor>v * 255\<rfloor>"
    using assms by (simp_all add: exact_channel_def)
  then have "0 \<le> \<lfloor>v * 255\<rfloor>" by simp
  then have e: "v * 255 = real k" using v(3) unfolding k_def by simp
  then have "real k \<le> 255" using v(2) by linarith
  then have "k \<le> 255" by linarith
  moreover have "v = real k / 255" using e by simp
  moreover have "round_f (v * 255) = int k" using e by simp
  ultimately show ?thesis by (rule that)
qed

lemma space_not_int_str: "CHR '' '' \<notin> set (int_str i)"
  using space_not_digit by (auto simp: int_str_def)

lemma split_px_line:
  "split_char CHR '' '' (ppm_px_line c)
     = [int_str (round_f (r c * 255)), int_str (round_f (g c * 255)), int_str (round_f (b c * 255))]"
  using space_not_int_str
  by (simp add: ppm_px_line_def color_map_def Let_def split_char_append split_char_none)

lemma exact_reloadable:
  assumes "exact_color c"
  shows "reloadable c \<and> decoded c = c"
proof -
  have ch: "0 \<le> round_f (v * 255) \<and> real (nat (round_f (v * 255)) mod uint_size) / 255 = v"
    if ev: "exact_channel v" for v
  proof -
    obtain k where "k \<le> 255" "v = real k / 255" "round_f (v * 255) = int k"
      using exact_channel_nat [OF ev] by blast
    moreover have "k mod uint_size = k" using \<open>k \<le> 255\<close> by (simp add: uint_size_def)
    ultimately show ?thesis by simp
  qed
  show ?thesis
    using assms ch [of "r c"] ch [of "g c"] ch [of "b c"]
    by (simp add: exact_color_def reloadable_def decoded_def)
qed

lemma cursor_step:
  assumes "0 < (W::nat)"
  shows "Suc k mod W = (if Suc (k mod W) = W then 0 else Suc (k mod W))"
    and "Suc k div W = (if Suc (k mod W) = W then Suc (k div W) else k div W)"
  using assms by (simp_all add: mod_Suc div_Suc)

text \<open>One pixel line: a line that parses stores the decoded colour and moves the
  cursor; a line with a negative number stops the task.\<close>

lemma load_px_line:
  assumes c: "reloadable c" and im: "length (data im) = W * H" "w im = W" "h im = H"
    and sz: "W * H < uint_size" and x: "x < W" and y: "y < H"
  shows "load_px 255 (split_char CHR '' '' (ppm_px_line c)) 0 (im, x, y) =
     (let im' = im\<lparr>data := (data im)[y * W + x := decoded c]\<rparr> in
      if Suc x = W then (if Suc y = H then Inr (Inl im') else Inr (Inr (im', 0, Suc y)))
      else Inr (Inr (im', Suc x, y)))"
proof -
  have wf: "wf_matrix im" using im sz by (simp add: wf_matrix_def)
  have "W \<le> W * H" "H \<le> W * H" using x y by simp_all
  then have "W < uint_size" "H < uint_size" using sz by linarith+
  then have inc: "uinc x = Suc x" "uinc y = Suc y" using x y by (simp_all add: uinc_def)
  show ?thesis
    using c wf im x y inc
    by (simp add: split_px_line int_str_parse load_px_def Let_def width_def height_def
        reloadable_def decoded_def)
qed

lemma load_px_fault:
  "\<not> reloadable c \<Longrightarrow> load_px 255 (split_char CHR '' '' (ppm_px_line c)) 0 st = Inl ParseFault"
  by (cases st) (auto simp: split_px_line int_str_parse load_px_def reloadable_def)

lemma px_line_fields: "length (split_char CHR '' '' (ppm_px_line c)) div 3 = 1"
  by (simp add: split_px_line)

text \<open>
  The reading loop on the lines of \<open>D\<close> after \<open>k\<close> pixels: it stores the
  decoded pixels in order and returns the image as soon as the last one is
  stored; otherwise it goes on with the remaining lines.
\<close>

lemma load_lines_run:
  assumes "0 < W" "W * H < uint_size" "length P = k" "k < W * H" "k + length D \<le> W * H"
    and "list_all reloadable D"
  shows "load_lines 255 (map ppm_px_line D @ rest)
           \<lparr>data = P @ replicate (W * H - k) black, w = W, h = H\<rparr> (k mod W) (k div W)
       = (if k + length D = W * H then Inr (Inr \<lparr>data = P @ map decoded D, w = W, h = H\<rparr>)
          else load_lines 255 rest \<lparr>data = P @ map decoded D @ replicate (W * H - k - length D) black,
                                      w = W, h = H\<rparr>
                 ((k + length D) mod W) ((k + length D) div W))"
  using assms(3-6)
proof (induction D arbitrary: k P)
  case Nil
  then show ?case by simp
next
  case (Cons c D)
  let ?im = "\<lparr>data = P @ replicate (W * H - k) black, w = W, h = H\<rparr>"
  let ?im' = "\<lparr>data = (P @ [decoded c]) @ replicate (W * H - Suc k) black, w = W, h = H\<rparr>"
  have x: "k mod W < W" using assms(1) by simp
  have y: "k div W < H" using Cons.prems(2) by (simp add: less_mult_imp_div_less mult.commute)
  have kk: "k div W * W + k mod W = k" by simp
  have upd: "(data ?im)[k div W * W + k mod W := decoded c]
             = (P @ [decoded c]) @ replicate (W * H - Suc k) black"
  proof -
    have "W * H - k = Suc (W * H - Suc k)" using Cons.prems(2) by simp
    then have "replicate (W * H - k) black = black # replicate (W * H - Suc k) black"
      by (simp only: replicate_Suc)
    then show ?thesis using Cons.prems(1) kk by (simp add: list_update_append)
  qed
  have step: "load_px 255 (split_char CHR '' '' (ppm_px_line c)) 0 (?im, k mod W, k div W) =
     (if Suc (k mod W) = W then (if Suc (k div W) = H then Inr (Inl ?im') else Inr (Inr (?im', 0, Suc (k div W))))
      else Inr (Inr (?im', Suc (k mod W), k div W)))"
    using load_px_line [of c ?im W H, OF _ _ _ _ assms(2) x y] Cons.prems(1,2,4) upd
    by (simp add: Let_def)
  show ?case
  proof (cases "Suc (k mod W) = W \<and> Suc (k div W) = H")
    case True
    from True have m: "Suc (k mod W) = W" and d: "H = Suc (k div W)" by simp_all
    have "Suc k = k div W * W + Suc (k mod W)" using kk by simp
    also have "\<dots> = Suc (k div W) * W" by (simp add: m)
    also have "\<dots> = W * H" by (simp add: d)
    finally have "Suc k = W * H" .
    moreover have "Suc (k + length D) \<le> W * H" using Cons.prems(3) by simp
    ultimately have "length D = 0" by linarith
    then have "D = []" by simp
    then show ?thesis using True step px_line_fields \<open>Suc k = W * H\<close> by simp
  next
    case False
    have sk: "Suc k mod W = (if Suc (k mod W) = W then 0 else Suc (k mod W))"
      "Suc k div W = (if Suc (k mod W) = W then Suc (k div W) else k div W)"
      using cursor_step [OF assms(1)] by blast+
    have lt: "Suc k < W * H"
    proof (rule ccontr)
      assume "\<not> Suc k < W * H"
      then have "Suc k = W * H" using Cons.prems(2) by simp
      then have "Suc k mod W = 0" "Suc k div W = H" using assms(1) by simp_all
      then show False using False sk by (auto split: if_splits)
    qed
    have IH: "load_lines 255 (map ppm_px_line D @ rest) ?im' (Suc k mod W) (Suc k div W)
       = (if Suc k + length D = W * H then Inr (Inr \<lparr>data = (P @ [decoded c]) @ map decoded D, w = W, h = H\<rparr>)
          else load_lines 255 rest \<lparr>data = (P @ [decoded c]) @ map decoded D
                                        @ replicate (W * H - Suc k - length D) black, w = W, h = H\<rparr>
                 ((Suc k + length D) mod W) ((Suc k + length D) div W))"
      using Cons.prems lt by (intro Cons.IH) simp_all
    have "load_lines 255 (map ppm_px_line (c # D) @ rest) ?im (k mod W) (k div W)
          = load_lines 255 (map ppm_px_line D @ rest) ?im' (Suc k mod W) (Suc k div W)"
      using False step px_line_fields sk by (auto simp: Let_def)
    then show ?thesis using IH by simp
  qed
qed

text \<open>The first line that does not parse stops the loop with a task failure.\<close>

lemma load_lines_fault:
  assumes "0 < W" "W * H < uint_size" "length P = k" "k + length D1 < W * H"
    and "list_all reloadable D1" "\<not> reloadable c"
  shows "load_lines 255 (map ppm_px_line (D1 @ c # D2) @ rest)
           \<lparr>data = P @ replicate (W * H - k) black, w = W, h = H\<rparr> (k mod W) (k div W)
         = Inl ParseFault"
proof -
  have "k < W * H" using assms(4) by simp
  then have "load_lines 255 (map ppm_px_line D1 @ (map ppm_px_line (c # D2) @ rest))
           \<lparr>data = P @ replicate (W * H - k) black, w = W, h = H\<rparr> (k mod W) (k div W)
         = load_lines 255 (map ppm_px_line (c # D2) @ rest)
             \<lparr>data = P @ map decoded D1 @ replicate (W * H - k - length D1) black, w = W, h = H\<rparr>
             ((k + length D1) mod W) ((k + length D1) div W)"
    using load_lines_run [OF assms(1-3) _ _ assms(5)] assms(4) by simp
  then show ?thesis using load_px_fault [OF assms(6)] px_line_fields by simp
qed

lemma uint_from_str_255 [simp]: "uint_from_str ''255'' = Some 255"
  by (simp add: uint_from_str_def is_digit_def digit_val_def uint_size_def)

lemma load_ppm_header:
  assumes "W < uint_size" "H < uint_size"
  shows "load_ppm (ppm_header W H @ ls)
           = load_lines 255 ls \<lparr>data = replicate (W * H mod uint_size) black, w = W, h = H\<rparr> 0 0"
proof -
  have u: "uint_from_str (nat_str W) = Some W" "uint_from_str (nat_str H) = Some H"
    using assms by (simp_all add: uint_from_nat_str)
  have "CHR '' '' \<notin> set (nat_str n)" for n using space_not_digit by blast
  then have sp: "split_char CHR '' '' (nat_str W @ CHR '' '' # nat_str H) = [nat_str W, nat_str H]"
    by (simp add: split_char_append split_char_none)
  show ?thesis
    using u sp by (simp add: load_ppm_def ppm_header_def read_line_def Image_make_def new_matrix_def)
qed

lemma dims_in_range:
  "0 < W \<Longrightarrow> 0 < H \<Longrightarrow> W * H < uint_size \<Longrightarrow> W < uint_size \<and> H < uint_size"
proof -
  assume "0 < W" "0 < H" "W * H < uint_size"
  moreover have "W \<le> W * H" "H \<le> W * H" using \<open>0 < W\<close> \<open>0 < H\<close> by simp_all
  ultimately show ?thesis by linarith
qed

text \<open>
  The decoder on a header and lines of exactly representable pixels: with too
  few pixels it reports the missing data, otherwise it returns the first
  \<open>W * H\<close> pixels and ignores the rest.
\<close>

lemma load_ppm_pixels_eq:
  assumes "0 < W" "0 < H" "W * H < uint_size" "list_all exact_color D"
  shows "load_ppm (ppm_header W H @ map ppm_px_line D)
           = (if length D < W * H then Inr (Inl ''image doesn't contain enough pixel data'')
              else Inr (Inr \<lparr>data = take (W * H) D, w = W, h = H\<rparr>))"
proof -
  have hd: "load_ppm (ppm_header W H @ map ppm_px_line D)
      = load_lines 255 (map ppm_px_line D) \<lparr>data = replicate (W * H) black, w = W, h = H\<rparr> 0 0"
    using load_ppm_header [of W H] dims_in_range [OF assms(1-3)] assms(3) by simp
  have rl: "list_all reloadable D" "map decoded D = D"
    using assms(4) exact_reloadable by (auto simp: list_all_iff intro: map_idI)
  show ?thesis
  proof (cases "length D < W * H")
    case True
    have "load_lines 255 (map ppm_px_line D @ []) \<lparr>data = [] @ replicate (W * H - 0) black, w = W, h = H\<rparr>
            (0 mod W) (0 div W) = load_lines 255 [] \<lparr>data = [] @ map decoded D
              @ replicate (W * H - 0 - length D) black, w = W, h = H\<rparr>
            ((0 + length D) mod W) ((0 + length D) div W)"
      using load_lines_run [of W H "[]" 0 D "[]"] assms rl True by simp
    then show ?thesis using True hd by simp
  next
    case False
    let ?D1 = "take (W * H) D" and ?D2 = "drop (W * H) D"
    have D: "map ppm_px_line D = map ppm_px_line ?D1 @ map ppm_px_line ?D2"
      by (simp flip: map_append)
    have l1: "length ?D1 = W * H" using False by simp
    have e1: "list_all reloadable ?D1" "map decoded ?D1 = ?D1"
      using rl by (auto simp: list_all_iff dest: in_set_takeD simp flip: take_map)
    have "0 < W * H" using assms(1,2) by simp
    then have "load_lines 255 (map ppm_px_line ?D1 @ map ppm_px_line ?D2)
            \<lparr>data = [] @ replicate (W * H - 0) black, w = W, h = H\<rparr> (0 mod W) (0 div W)
          = Inr (Inr \<lparr>data = [] @ map decoded ?D1, w = W, h = H\<rparr>)"
      using load_lines_run [of W H "[]" 0 ?D1 "map ppm_px_line ?D2"] assms(1,3) l1 e1 by simp
    then show ?thesis using False hd D e1(2) by simp
  qed
qed

lemma matrix_eta: "\<lparr>data = data m, w = w m, h = h m\<rparr> = (m :: 'a matrix)"
  by (cases m) simp

section \<open>Claims\<close>

text \<open>
  C20: writing a well-formed image of positive size whose channels lie in [0, 1]
  and are multiples of 1/255, and reading the lines back, gives the image again
  (spec.md section 8, round trip).
\<close>

theorem ppm_roundtrip:
  assumes "wf_matrix img" "0 < w img" "0 < h img" "list_all exact_color (data img)"
  shows "\<exists>ls. save_ppm img = Inr ls \<and> load_ppm ls = Inr (Inr img)"
proof -
  have len: "length (data img) = w img * h img" "w img * h img < uint_size"
    using assms(1) by (simp_all add: wf_matrix_def)
  have "load_ppm (ppm_header (w img) (h img) @ map ppm_px_line (data img))
          = Inr (Inr \<lparr>data = data img, w = w img, h = h img\<rparr>)"
    using load_ppm_pixels_eq [OF assms(2,3) len(2) assms(4)] len(1) by simp
  then show ?thesis using save_ppm_eq [OF assms(1)] by (simp add: matrix_eta)
qed

theorem ppm_roundtrip_witness:
  "\<exists>ls. save_ppm (uniform_image 2 2 (grey 1)) = Inr ls \<and> load_ppm ls = Inr (Inr (uniform_image 2 2 (grey 1)))"
proof -
  have "exact_color (grey 1)" by (simp add: exact_color_def exact_channel_def grey_def)
  then show ?thesis
    using ppm_roundtrip [of "uniform_image 2 2 (grey 1)"]
    by (simp add: uint_size_def uniform_image_def list_all_iff wf_matrix_def)
qed

text \<open>
  C21: on a header for \<open>W x H\<close> followed by lines of exactly representable
  pixels, \<open>load_ppm\<close> reports missing data when there are fewer than
  \<open>W * H\<close> lines, and otherwise returns the image of the first \<open>W * H\<close>
  pixels in row-major order, ignoring the rest of the file.
\<close>

theorem load_ppm_pixels:
  assumes "0 < W" "0 < H" "W * H < uint_size" "list_all exact_color D"
  shows "load_ppm (ppm_header W H @ map ppm_px_line D)
           = (if length D < W * H then Inr (Inl ''image doesn't contain enough pixel data'')
              else Inr (Inr \<lparr>data = take (W * H) D, w = W, h = H\<rparr>))"
  using load_ppm_pixels_eq [OF assms] .

theorem load_ppm_pixels_witness:
  "load_ppm (ppm_header 2 1 @ map ppm_px_line [black])
     = Inr (Inl ''image doesn't contain enough pixel data'')
   \<and> load_ppm (ppm_header 1 1 @ map ppm_px_line [black, grey 1])
     = Inr (Inr \<lparr>data = [black], w = 1, h = 1\<rparr>)"
proof -
  have e: "exact_color black" "exact_color (grey 1)"
    by (simp_all add: exact_color_def exact_channel_def black_def grey_def)
  show ?thesis
    using load_ppm_pixels [of 2 1 "[black]"] load_ppm_pixels [of 1 1 "[black, grey 1]"] e
    by (simp add: uint_size_def)
qed

text \<open>
  C22: the header failures of \<open>load_ppm\<close>, for every file.  A first line
  other than \<open>P3\<close> gives the error value (spec.md section 8).  A width that
  does not parse, a height that does not parse, and a maximum that does not
  parse (an empty line at the end of the file included) fail the task
  (\<open>Option::get\<close>), not the ParseError value of spec.md section 7; a
  dimension line holding one number faults on \<open>dims[1]\<close>.
\<close>

theorem load_ppm_header_errors:
  "(l \<noteq> ''P3'' \<longrightarrow> load_ppm (l # rd) = Inr (Inl ''image is not of type P3''))
   \<and> (uint_from_str sw = None \<longrightarrow> CHR '' '' \<notin> set sw
        \<longrightarrow> load_ppm (''P3'' # (sw @ CHR '' '' # sh) # rd) = Inl ParseFault)
   \<and> (uint_from_str sw \<noteq> None \<longrightarrow> CHR '' '' \<notin> set sw
        \<longrightarrow> load_ppm (''P3'' # sw # rd) = Inl IndexFault)
   \<and> (uint_from_str sw \<noteq> None \<longrightarrow> uint_from_str sh = None \<longrightarrow> CHR '' '' \<notin> set sw
        \<longrightarrow> CHR '' '' \<notin> set sh \<longrightarrow> load_ppm (''P3'' # (sw @ CHR '' '' # sh) # rd) = Inl ParseFault)
   \<and> (uint_from_str m = None \<longrightarrow> W < uint_size \<longrightarrow> H < uint_size
        \<longrightarrow> load_ppm (''P3'' # (nat_str W @ CHR '' '' # nat_str H) # m # rd) = Inl ParseFault)"
proof -
  have sp: "CHR '' '' \<notin> set (nat_str n)" for n using space_not_digit by blast
  show ?thesis
    using sp by (auto simp: load_ppm_def read_line_def split_char_append split_char_none
        uint_from_nat_str vec_get_def)
qed

theorem load_ppm_header_errors_witness:
  "load_ppm [''P2'', ''2 2''] = Inr (Inl ''image is not of type P3'')
   \<and> load_ppm [''P3'', ''two 2'', ''255''] = Inl ParseFault
   \<and> load_ppm [''P3'', ''2'', ''255''] = Inl IndexFault
   \<and> load_ppm [''P3'', ''2 two'', ''255''] = Inl ParseFault
   \<and> load_ppm [''P3'', nat_str 2 @ CHR '' '' # nat_str 2, ''max''] = Inl ParseFault"
proof -
  have p: "uint_from_str ''two'' = None" "uint_from_str ''2'' \<noteq> None" "uint_from_str ''max'' = None"
    by (simp_all add: uint_from_str_def is_digit_def)
  have "(2::nat) < uint_size" by (simp add: uint_size_def)
  then show ?thesis
    using load_ppm_header_errors [where l = "''P2''" and rd = "[''2 2'']" and sw = "''two''"
        and sh = "''2''" and m = "''max''" and W = 2 and H = 2]
      load_ppm_header_errors [where l = "''P3''" and rd = "[''255'']" and sw = "''2''"
        and sh = "''two''" and m = "''max''" and W = 2 and H = 2]
      load_ppm_header_errors [where l = "''P3''" and rd = "[''255'']" and sw = "''two''"
        and sh = "''2''" and m = "''max''" and W = 2 and H = 2]
      load_ppm_header_errors [where l = "''P3''" and rd = "[]" and sw = "''2''"
        and sh = "''two''" and m = "''max''" and W = 2 and H = 2]
      p
    by simp
qed

text \<open>
  C23: \<open>round\<close> rounds half up on non-negative values, as spec.md section 6
  asks, but truncates toward zero on negative ones (\<open>round(-0.7) = 0\<close>).
\<close>

theorem round_f_spec: "round_f f = (if 0 \<le> f then \<lfloor>f + 1 / 2\<rfloor> else \<lceil>f\<rceil>)"
  by (simp add: round_f_nonneg round_f_neg)

text \<open>
  C24: \<open>save_ppm\<close> of a well-formed image writes the three header lines and
  then one line per pixel in row-major order, pixel \<open>(x, y)\<close> on line
  \<open>3 + y * w + x\<close>.
\<close>

theorem save_ppm_format:
  assumes "wf_matrix img"
  shows "\<exists>ls. save_ppm img = Inr ls \<and> length ls = 3 + w img * h img
           \<and> take 3 ls = [''P3'', nat_str (w img) @ '' '' @ nat_str (h img), ''255'']
           \<and> (\<forall>x < w img. \<forall>y < h img. ls ! (3 + (y * w img + x)) = ppm_px_line (px img x y))"
proof -
  have "length (data img) = w img * h img" using assms by (simp add: wf_matrix_def)
  moreover have "y * w img + x < length (data img)" if "x < w img" "y < h img" for x y
    using idx_in_range [OF assms that] by simp
  ultimately show ?thesis
    using save_ppm_eq [OF assms] by (simp add: ppm_header_def px_def)
qed

theorem save_ppm_format_witness:
  "\<exists>ls. save_ppm (uniform_image 1 1 (grey 1)) = Inr ls \<and> length ls = 4
     \<and> take 3 ls = [''P3'', nat_str 1 @ '' '' @ nat_str 1, ''255'']
     \<and> ls ! 3 = ppm_px_line (grey 1)"
proof -
  obtain ls where "save_ppm (uniform_image 1 1 (grey 1)) = Inr ls" "length ls = 3 + 1 * 1"
      "take 3 ls = [''P3'', nat_str 1 @ '' '' @ nat_str 1, ''255'']"
      "\<forall>x < 1. \<forall>y < 1. ls ! (3 + (y * 1 + x)) = ppm_px_line (px (uniform_image 1 1 (grey 1)) x y)"
    using save_ppm_format [of "uniform_image 1 1 (grey 1)"] by (auto simp: uint_size_def)
  then show ?thesis by auto
qed

text \<open>
  C25: saving a well-formed image of positive size and loading the lines back,
  for every image: when no channel rounds below 0 (times 255) the result is
  the image of the decoded colours; otherwise the first negative number in the
  file makes the load a task failure.  A channel of -1/1000 is saved as 0 and
  read back as 0; a channel of -1 is saved as \<open>-255\<close>, which
  \<open>uint::from_str\<close> rejects.
\<close>

theorem save_load:
  assumes "wf_matrix img" "0 < w img" "0 < h img"
  shows "rbind (save_ppm img) load_ppm =
           (if list_all reloadable (data img)
            then Inr (Inr \<lparr>data = map decoded (data img), w = w img, h = h img\<rparr>)
            else Inl ParseFault)"
proof -
  let ?W = "w img" and ?H = "h img"
  have len: "length (data img) = ?W * ?H" and sz: "?W * ?H < uint_size"
    using assms(1) by (simp_all add: wf_matrix_def)
  have hd: "rbind (save_ppm img) load_ppm
      = load_lines 255 (map ppm_px_line (data img) @ [])
          \<lparr>data = [] @ replicate (?W * ?H - 0) black, w = ?W, h = ?H\<rparr> (0 mod ?W) (0 div ?W)"
    using save_ppm_eq [OF assms(1)] load_ppm_header [of ?W ?H] dims_in_range [OF assms(2,3) sz] sz
    by simp
  have pos: "0 < ?W * ?H" using assms(2,3) by simp
  show ?thesis
  proof (cases "list_all reloadable (data img)")
    case True
    then show ?thesis
      using hd load_lines_run [of ?W ?H "[]" 0 "data img" "[]"] assms(2) sz len pos by simp
  next
    case False
    then obtain D1 c D2 where D: "data img = D1 @ c # D2" and c: "\<not> reloadable c"
        and D1: "\<forall>y \<in> set D1. \<not> \<not> reloadable y"
      by (auto simp: list_all_iff elim!: split_list_first_propE)
    have "length D1 < ?W * ?H" using len D by simp
    then have "load_lines 255 (map ppm_px_line (D1 @ c # D2) @ [])
          \<lparr>data = [] @ replicate (?W * ?H - 0) black, w = ?W, h = ?H\<rparr> (0 mod ?W) (0 div ?W)
        = Inl ParseFault"
      using load_lines_fault [of ?W ?H "[]" 0 D1 c D2 "[]"] assms(2) sz D1 c by (simp add: list_all_iff)
    then show ?thesis using hd D False by simp
  qed
qed

theorem save_load_witness:
  "rbind (save_ppm \<lparr>data = [\<lparr>r = -1/1000, g = 0, b = 0\<rparr>, black], w = 2, h = 1\<rparr>) load_ppm
     = Inr (Inr \<lparr>data = [black, black], w = 2, h = 1\<rparr>)
   \<and> rbind (save_ppm \<lparr>data = [\<lparr>r = -1, g = 0, b = 0\<rparr>, black], w = 2, h = 1\<rparr>) load_ppm
     = Inl ParseFault"
proof -
  have r1: "round_f (- 1 / 1000 * 255) = 0" "round_f (- 1 * 255) = - 255"
    by (simp_all add: round_f_neg)
  have wf: "wf_matrix (\<lparr>data = [\<lparr>r = -1/1000, g = 0, b = 0\<rparr>, black], w = 2, h = 1\<rparr> :: image)"
      "wf_matrix (\<lparr>data = [\<lparr>r = -1, g = 0, b = 0\<rparr>, black], w = 2, h = 1\<rparr> :: image)"
    by (simp_all add: wf_matrix_def uint_size_def)
  show ?thesis
    using save_load [OF wf(1)] save_load [OF wf(2)] r1
    by (simp add: reloadable_def decoded_def black_def)
qed

text \<open>
  C13: a header of width 0 is accepted: \<open>Image(0, h)\<close> is allocated with no
  pixel, and the first pixel line whose first three fields parse makes the
  store of pixel \<open>(0, 0)\<close> fault, whatever the height and the rest of the file.
\<close>

theorem load_ppm_zero_width:
  assumes "H < uint_size" "3 \<le> length (split_char CHR '' '' l)"
    and "\<forall>i < 3. uint_from_str (split_char CHR '' '' l ! i) \<noteq> None"
  shows "load_ppm (ppm_header 0 H @ l # rd) = Inl IndexFault"
proof -
  let ?cs = "split_char CHR '' '' l"
  obtain u0 u1 u2 where u: "uint_from_str (?cs ! 0) = Some u0" "uint_from_str (?cs ! 1) = Some u1"
      "uint_from_str (?cs ! Suc (Suc 0)) = Some u2"
  proof -
    have "uint_from_str (?cs ! i) \<noteq> None" if "i < 3" for i using assms(3) that by blast
    then have "uint_from_str (?cs ! 0) \<noteq> None" "uint_from_str (?cs ! 1) \<noteq> None"
        "uint_from_str (?cs ! Suc (Suc 0)) \<noteq> None" by simp_all
    then show ?thesis using that by blast
  qed
  have n: "[0..<length ?cs div 3] = 0 # [1..<length ?cs div 3]"
    using assms(2) by (simp add: upt_conv_Cons)
  have "load_px 255 ?cs 0 (\<lparr>data = [], w = 0, h = H\<rparr>, 0, 0) = Inl IndexFault"
    using assms(2) u by (simp add: load_px_def matrix_set_def idx_def vec_get_def)
  then show ?thesis
    using load_ppm_header [of 0 H "l # rd"] assms(1) n u by (simp add: uint_size_def)
qed

theorem load_ppm_zero_width_witness:
  "load_ppm (ppm_header 0 1 @ [''0 0 0'']) = Inl IndexFault"
proof -
  have "split_char CHR '' '' ''0 0 0'' = [''0'', ''0'', ''0'']" by simp
  moreover have "uint_from_str ''0'' = Some 0" by (simp add: uint_from_str_def is_digit_def digit_val_def)
  moreover have "[''0'', ''0'', ''0''] ! i = ''0''" if "i < 3" for i
    using nth_mem [of i "[''0'', ''0'', ''0'']"] that by simp
  ultimately show ?thesis
    using load_ppm_zero_width [of 1 "''0 0 0''" "[]"] by (simp add: uint_size_def)
qed

end
