(* ===== verification/Cli.thy ===== *)
theory Cli
  imports Carve Ppm
begin

text \<open>
  \<open>main\<close> of src/seam.rs (lines 217--226) and the file access of
  \<open>load_ppm\<close> (line 182).  The file system is a map from paths to the lines
  of the file; \<open>io::file_reader(path).get()\<close> fails when the path is absent.
  \<open>main\<close> prints the usage with fewer than four arguments (the program name
  included); otherwise it loads the input (\<open>get_ref\<close> fails on an error
  value), parses the column count, carves, and writes the output file, whose
  lines are the outcome \<open>Saved\<close>.  A failure to create the output file is not
  modelled.
\<close>

datatype outcome = Usage "string list" | Saved string "string list"

definition file_lines :: "(string \<Rightarrow> string list option) \<Rightarrow> string \<Rightarrow> string list res" where
  "file_lines fs path = (case fs path of None \<Rightarrow> Inl IoFault | Some ls \<Rightarrow> Inr ls)"

definition load_ppm_path :: "(string \<Rightarrow> string list option) \<Rightarrow> string \<Rightarrow> (string + image) res" where
  "load_ppm_path fs path = rbind (file_lines fs path) load_ppm"

definition result_get :: "(string + 'a) \<Rightarrow> 'a res" where
  "result_get v = (case v of Inl msg \<Rightarrow> Inl ResultFault | Inr x \<Rightarrow> Inr x)"

definition seam_main :: "string list \<Rightarrow> (string \<Rightarrow> string list option) \<Rightarrow> outcome pres" where
  "seam_main args fs =
     (if length args < 4
      then Some (Inr (Usage [''usage: seam <input.ppm> <cols> <output.ppm>'',
                             ''where rows is the number of columns to carve out'']))
      else
        pbind (Some (load_ppm_path fs (args ! 1))) (\<lambda>im.
        pbind (Some (result_get im)) (\<lambda>img.
        pbind (Some (opt_get (uint_from_str (args ! 2)))) (\<lambda>n.
        pbind (carven img n) (\<lambda>carved.
        pbind (Some (save_ppm carved)) (\<lambda>ls.
          Some (Inr (Saved (args ! 3) ls))))))))"

section \<open>Claims\<close>

text \<open>
  C27: the whole program on a well-formed input file: when the file holds a
  header for \<open>W x H\<close> and exactly \<open>W * H\<close> representable pixels and the
  column count \<open>n\<close> is at most \<open>W\<close>, \<open>main\<close> returns and writes to the output
  path the PPM lines of the image \<open>carven\<close> computes, a well-formed image of
  width \<open>W - n\<close> and height \<open>H\<close>.
\<close>

theorem main_pipeline:
  assumes fs: "fs inp = Some (ppm_header W H @ map ppm_px_line D)"
    and dims: "0 < W" "0 < H" "W * H < uint_size" "length D = W * H"
    and D: "list_all exact_color D" and n: "n \<le> W"
  shows "\<exists>img'. carven \<lparr>data = D, w = W, h = H\<rparr> n = Some (Inr img')
           \<and> wf_matrix img' \<and> w img' = W - n \<and> h img' = H
           \<and> seam_main [prog, inp, nat_str n, out] fs
               = Some (Inr (Saved out (ppm_header (W - n) H @ map ppm_px_line (data img'))))"
proof -
  let ?img = "\<lparr>data = D, w = W, h = H\<rparr> :: image"
  have load: "load_ppm_path fs inp = Inr (Inr ?img)"
    using load_ppm_pixels_eq [OF dims(1-3) D] dims(4) fs by (simp add: load_ppm_path_def file_lines_def)
  have "W \<le> W * H" using dims(2) by simp
  then have "n < uint_size" using n dims(3) by linarith
  then have parse: "uint_from_str (nat_str n) = Some n" by (rule uint_from_nat_str)
  have wf: "wf_matrix ?img" using dims by (simp add: wf_matrix_def)
  obtain img' where c: "carve_times n ?img = Some (Inr img')" "wf_matrix img'"
      "w img' = W - n" "h img' = H"
    using carve_times_shape [OF wf _ ] n dims(2) by auto
  show ?thesis
    using load parse c save_ppm_eq [OF c(2)]
    by (simp add: seam_main_def result_get_def carven_def)
qed

theorem main_pipeline_witness:
  "\<exists>img'. carven \<lparr>data = [black, grey 1], w = 2, h = 1\<rparr> 1 = Some (Inr img')
     \<and> wf_matrix img' \<and> w img' = 1 \<and> h img' = 1
     \<and> seam_main [''seam'', ''in.ppm'', nat_str 1, ''out.ppm'']
           (\<lambda>p. if p = ''in.ppm'' then Some (ppm_header 2 1 @ map ppm_px_line [black, grey 1]) else None)
         = Some (Inr (Saved ''out.ppm'' (ppm_header 1 1 @ map ppm_px_line (data img'))))"
proof -
  have e: "list_all exact_color [black, grey 1]"
    by (simp add: exact_color_def exact_channel_def black_def grey_def)
  show ?thesis
    using main_pipeline [of "\<lambda>p. if p = ''in.ppm'' then Some (ppm_header 2 1 @ map ppm_px_line [black, grey 1]) else None"
        "''in.ppm''" 2 1 "[black, grey 1]" 1 "''seam''" "''out.ppm''"] e
    by (simp add: uint_size_def)
qed

text \<open>
  C28: the failures of \<open>main\<close>, for every argument list and file system.
  With fewer than four arguments it prints the usage (whose second line speaks
  of rows where the argument counts columns).  Otherwise a missing input file
  is a task failure, a failure of \<open>load_ppm\<close> is passed on, an error value
  of \<open>load_ppm\<close> (not P3, too few pixels) is a task failure of
  \<open>get_ref\<close> rather than a message, and a column count that does not parse
  is a task failure.
\<close>

theorem main_failures:
  "(length args < 4 \<longrightarrow> seam_main args fs = Some (Inr (Usage
       [''usage: seam <input.ppm> <cols> <output.ppm>'',
        ''where rows is the number of columns to carve out''])))
   \<and> (4 \<le> length args \<longrightarrow> fs (args ! 1) = None \<longrightarrow> seam_main args fs = Some (Inl IoFault))
   \<and> (4 \<le> length args \<longrightarrow> fs (args ! 1) = Some ls \<longrightarrow> load_ppm ls = Inl e
        \<longrightarrow> seam_main args fs = Some (Inl e))
   \<and> (4 \<le> length args \<longrightarrow> fs (args ! 1) = Some ls \<longrightarrow> load_ppm ls = Inr (Inl msg)
        \<longrightarrow> seam_main args fs = Some (Inl ResultFault))
   \<and> (4 \<le> length args \<longrightarrow> fs (args ! 1) = Some ls \<longrightarrow> load_ppm ls = Inr (Inr img)
        \<longrightarrow> uint_from_str (args ! 2) = None \<longrightarrow> seam_main args fs = Some (Inl ParseFault))"
  by (simp add: seam_main_def load_ppm_path_def file_lines_def result_get_def)

theorem main_failures_witness:
  "seam_main [''seam'', ''in.ppm'', ''1''] (\<lambda>p. None) = Some (Inr (Usage
       [''usage: seam <input.ppm> <cols> <output.ppm>'',
        ''where rows is the number of columns to carve out'']))
   \<and> seam_main [''seam'', ''in.ppm'', ''1'', ''out.ppm''] (\<lambda>p. None) = Some (Inl IoFault)
   \<and> seam_main [''seam'', ''in.ppm'', ''1'', ''out.ppm''] (\<lambda>p. Some [''P3'', ''two 2''])
       = Some (Inl ParseFault)
   \<and> seam_main [''seam'', ''in.ppm'', ''1'', ''out.ppm''] (\<lambda>p. Some [''P6''])
       = Some (Inl ResultFault)
   \<and> seam_main [''seam'', ''in.ppm'', ''one'', ''out.ppm''] (\<lambda>p. Some (ppm_header 1 1 @ map ppm_px_line [black]))
       = Some (Inl ParseFault)"
proof -
  have e: "exact_color black" by (simp add: exact_color_def exact_channel_def black_def)
  have l1: "load_ppm [''P3'', ''two 2''] = Inl ParseFault"
    by (simp add: load_ppm_def read_line_def vec_get_def uint_from_str_def is_digit_def)
  have l2: "load_ppm [''P6''] = Inr (Inl ''image is not of type P3'')"
    by (simp add: load_ppm_def read_line_def)
  have l3: "load_ppm (ppm_header 1 1 @ map ppm_px_line [black]) = Inr (Inr \<lparr>data = [black], w = 1, h = 1\<rparr>)"
    using load_ppm_pixels_eq [of 1 1 "[black]"] e by (simp add: uint_size_def)
  have p: "uint_from_str ''one'' = None" by (simp add: uint_from_str_def is_digit_def)
  show ?thesis
    using main_failures [where args = "[''seam'', ''in.ppm'', ''1'']" and fs = "\<lambda>p. None"]
      main_failures [where args = "[''seam'', ''in.ppm'', ''1'', ''out.ppm'']" and fs = "\<lambda>p. None"]
      main_failures [where args = "[''seam'', ''in.ppm'', ''1'', ''out.ppm'']"
        and fs = "\<lambda>p. Some [''P3'', ''two 2'']" and ls = "[''P3'', ''two 2'']" and e = ParseFault]
      main_failures [where args = "[''seam'', ''in.ppm'', ''1'', ''out.ppm'']"
        and fs = "\<lambda>p. Some [''P6'']" and ls = "[''P6'']" and msg = "''image is not of type P3''"]
      main_failures [where args = "[''seam'', ''in.ppm'', ''one'', ''out.ppm'']"
        and fs = "\<lambda>p. Some (ppm_header 1 1 @ map ppm_px_line [black])"
        and ls = "ppm_header 1 1 @ map ppm_px_line [black]" and img = "\<lparr>data = [black], w = 1, h = 1\<rparr>"]
      l1 l2 l3 p
    by simp
qed

end
