(* ===== verification/Spec2Isabelle.thy ===== *)
theory Spec2Isabelle
  imports Cli
begin

text \<open>
  \<^bold>\<open>Seam carving, src/seam.rs.\<close>

  The program shrinks an image by one column at a time.  Each step computes an
  energy for every pixel (a gradient of the brightness), builds a table that gives
  every pixel a cost and the direction of a neighbour in the row above, walks the
  table upward from every pixel of the bottom row to find the cheapest vertical
  path (a seam), and copies the image without the seam's pixels.  \<open>carven\<close>
  repeats the step; \<open>main\<close> reads and writes the images in the PPM text format.

  \<^bold>\<open>Theories and the code they model.\<close>
  \<^item> \<open>Seam_Prelude\<close>: what the components share.  \<open>uint\<close> is 64 bits
    (\<open>uint_size\<close>), and the decrement and increment the code applies to it wrap
    (\<open>usub1\<close>, \<open>uinc\<close>).  A failure is a value of \<open>'a res = error + 'a\<close>:
    \<open>IndexFault\<close> for a failed bounds check of Rust's vector index
    (\<open>vec_get\<close>), \<open>EmptyVector\<close> for \<open>min\<close> of an empty vector,
    \<open>ParseFault\<close>, \<open>ResultFault\<close>, \<open>IoFault\<close> for \<open>get\<close> on
    \<open>None\<close>, \<open>get_ref\<close> on \<open>Err\<close> and a file that cannot be opened.  A
    computation that may also not return has type \<open>'a pres = 'a res option\<close>,
    \<open>None\<close> the divergence.  \<open>forM\<close>, \<open>for_range\<close> and \<open>pforM\<close> are
    \<open>for uint::range\<close> loops over a state.  \<open>float\<close> is \<open>flt\<close>, a real or
    \<open>Infinity\<close>; the energies are exact reals (rounding of floating point is
    not modelled).  \<open>rows\<close> is the row-major layout of a grid.
  \<^item> \<open>Matrix\<close>: \<open>Matrix<T>\<close> (lines 1--16) as the record \<open>matrix\<close>,
    \<open>at\<close>/\<open>set\<close> as \<open>matrix_at\<close>/\<open>matrix_set\<close> (index \<open>y*w+x\<close> in
    \<open>uint\<close>, checked against the vector length only), the allocation
    \<open>Matrix{..}; data.grow(w*h, v)\<close> as \<open>new_matrix\<close>, and \<open>fill\<close>, the nested
    \<open>for y { for x { m.set(x, y, f(x, y)) } }\<close> loop.  \<open>wf_matrix\<close> is the
    shape invariant, \<open>px\<close> and \<open>tabulate\<close> read and build a well-formed matrix.
  \<^item> \<open>Color\<close>: \<open>Color\<close>, \<open>map\<close>, \<open>brightness\<close> (lines 18--30), the type
    \<open>Image\<close> and its constructor \<open>Image(width, height)\<close> (\<open>Image_make\<close>,
    lines 32--39); the test images \<open>grey\<close> and \<open>uniform_image\<close>.
  \<^item> \<open>Energy\<close>: \<open>Image::energy\<close> (lines 48--69): \<open>energy_px\<close> is one pixel,
    \<open>energy\<close> the loop.  \<open>energy_at\<close> is spec.md section 4.2.
  \<^item> \<open>Seam_Table\<close>: the first half of \<open>Image::best_seam\<close> (lines 71--96), the
    cost table: \<open>direction\<close>, \<open>vec_min\<close> (the library's \<open>min\<close> on a vector),
    \<open>dp_cell\<close> one cell, \<open>dp_table\<close> the loop; \<open>dp_val\<close> is the same cell as
    a function of the energies.  Directions are ordered Left, Right, Up, the
    order of the tie-break (a \<open>linorder\<close> instance).
  \<^item> \<open>Seam_Walk\<close>: the second half of \<open>best_seam\<close> (lines 98--129): \<open>walk\<close>
    is the \<open>loop\<close> that follows the directions upward from one bottom column,
    \<open>scan_column\<close> one iteration of the outer \<open>for\<close> with its strict update of
    the best, \<open>best_seam\<close> the whole method.  \<open>walk_full\<close>,
    \<open>scan_column_full\<close>, \<open>best_seam_full\<close> are the same code without the
    pruning \<open>break\<close>.  The reference \<open>trail\<close>, \<open>path_cost\<close>, \<open>seam_ref\<close>
    is the walk as a structural recursion on the row; \<open>valid_seam\<close> and
    \<open>seam_energy\<close> are spec.md section 3.
  \<^item> \<open>Carve\<close>: \<open>carve\<close> (lines 132--146) and \<open>carven\<close> (lines 148--155,
    with \<open>carve_times\<close> the \<open>n.times\<close> loop); \<open>remove_seam\<close> is spec.md
    section 4.4.
  \<^item> \<open>Ppm\<close>: \<open>round\<close>, \<open>Image::save_ppm\<close>, \<open>load_ppm\<close> (lines
    157--215).  A file is the list of its lines; \<open>save_ppm\<close> returns the lines
    it writes, \<open>load_ppm\<close> reads them (\<open>read_line\<close> gives the empty string
    at the end).  \<open>round_f\<close> is \<open>round\<close> (\<open>f as int\<close> truncates),
    \<open>nat_str\<close>/\<open>int_str\<close> the decimal printing of \<open>fmt!\<close>,
    \<open>uint_from_str\<close> and \<open>split_char\<close> the library's parsing, \<open>load_px\<close>
    one iteration of the inner \<open>for\<close> (with \<open>for_exit\<close> for its early
    \<open>return\<close>), \<open>load_lines\<close> the \<open>while !rd.eof()\<close> loop.
    \<open>exact_color\<close> says a colour survives the file (channels in [0, 1],
    multiples of 1/255); \<open>reloadable\<close> says no channel of a colour rounds
    below 0, and \<open>decoded\<close> is the colour read back from its line.
  \<^item> \<open>Cli\<close>: \<open>main\<close> (lines 217--226) as \<open>seam_main\<close> over a file
    system mapping paths to lines; \<open>file_lines\<close> is the opening of the input
    (line 182), \<open>result_get\<close> is \<open>get_ref\<close>.
  \<^item> This theory: the scenarios of spec.md section 8 on concrete images.

  \<^bold>\<open>Divergence and fuel.\<close>  The back-tracking \<open>loop\<close> of \<open>best_seam\<close> has no
  bound in the code: it stops on a cell without a direction or when the running
  total exceeds the best.  It is a \<open>partial_function (option)\<close>, so no fuel is
  chosen; not returning is \<open>None\<close>.  That it returns on the table the code
  builds is proved (\<open>walk_dp\<close>, claim C3) by induction on the row, which the
  walk decrements at every step.  All other loops are \<open>for\<close> loops over a
  finite range and are structural recursions.

  \<^bold>\<open>What the lemmas show.\<close>
  \<^item> Each loop computes its specification: \<open>fill_new_matrix\<close>,
    \<open>energy_eq\<close>, \<open>dp_table_eq\<close>, \<open>best_seam_eq\<close> (the scan equals the
    reference \<open>seam_ref\<close>), \<open>carve_loop_eq\<close> (the copy loop is
    \<open>remove_seam\<close>).
  \<^item> The walk on the table (\<open>walk_dp\<close>): it returns, and it returns the full
    path when the running total stays within the best, otherwise a total above
    the best; hence pruning is sound (\<open>best_seam_full_eq\<close>).
  \<^item> The reference: paths are seams (\<open>trail_valid\<close>), the total in closed form
    (\<open>path_cost_closed\<close>), the scan keeps the leftmost cheapest column
    (\<open>foldl_pick_first_min\<close>).
  \<^item> The file format: \<open>save_ppm_eq\<close> (the lines written),
    \<open>load_lines_run\<close> (the reading loop stores the pixels in order and returns
    at the last one), \<open>load_ppm_header\<close>, \<open>load_ppm_pixels_eq\<close>.
  \<^item> Claims C1--C28, each after a text block naming it: validity and
    termination of \<open>best_seam\<close>, soundness of the pruning, correctness of
    \<open>carve\<close>, the energy and the tie-break against spec.md, the cost the code
    returns, the choice among equal totals, the scenarios, the shape of
    \<open>carven\<close> and the unguarded degenerate inputs (C13 a header of width 0
    in the decoder), the matrix access, the
    invariants of the energy field and of the table (C1--C19); the PPM round
    trip, the decoder, its failures for every file, rounding, the encoder and
    the general save/load characterisation (C20--C25); the bound of the energy
    field \<open>energy\<close> returns (C26); the whole program and its failures (C27, C28).

  \<^bold>\<open>Findings the claims record.\<close>  The table adds to each pixel's energy the
  least energy of its upper neighbours, not their cumulative cost (C7, C9): the
  seam is chosen greedily and need not have the least energy, and the returned
  total is twice the seam's energy less its bottom pixel.  In the spec's spot
  scenario the white centre has energy 0 and the seam goes through it (C10).
  No input check guards \<open>carven\<close>: carving the whole width gives width 0 (C12),
  and carving an empty image of height 0 gives width 2^64 - 1 by \<open>uint\<close>
  wrap (C14); a height of 0 with a positive width faults (C15); \<open>at\<close> does
  not check the column (C17).  The decoder accepts a header of width 0 until the
  first pixel faults (C13), and fails the task, rather than returning its error
  value, on a header number that does not parse or a dimension line with one
  number (C22); \<open>round\<close> truncates negative values (C23), so a channel
  rounding below 0 makes the saved file unreadable while one in (-1/255, 0)
  reads back as 0 (C25); the energy field of a [0, 1] image stays in [0, 1]
  (C26); \<open>main\<close> fails the task on a missing or malformed input instead of
  reporting it (C28).

  \<^bold>\<open>Not modelled.\<close>  The byte level of the files (lines are given, the
  newline handling of \<open>read_line\<close> is not modelled), a failure to create the
  output file, the printing of the usage to the terminal, and the overflow of
  \<open>uint::from_str\<close> beyond its reduction modulo 2^64.  Floating-point
  rounding and the representation of \<open>float\<close> are not modelled: channels
  and energies are reals, so a division by a maximum of 0 in \<open>load_ppm\<close>
  gives 0 in the model where IEEE arithmetic gives infinity or NaN; the claims
  on the decoder use the maximum 255.  Allocation is infallible: \<open>grow\<close>
  (in \<open>new_matrix\<close>) always yields the vector, where the real program
  aborts when memory runs out.  The claims that run \<open>carve\<close> or
  \<open>load_ppm\<close> allocate at most the \<open>w * h\<close> cells of their input or of
  the header they read (C14 and C13 allocate none), so they hold of runs the
  machine's memory serves.
\<close>

text \<open>Test images given by rows of grey levels.\<close>

definition image_of_rows :: "real list list \<Rightarrow> image" where
  "image_of_rows rs = \<lparr>data = map grey (concat rs), w = length (hd rs), h = length rs\<rparr>"

text \<open>The spot image of spec.md section 8: black, with a white centre.\<close>

definition spot_image :: image where
  "spot_image = image_of_rows [[0, 0, 0], [0, 1, 0], [0, 0, 0]]"

text \<open>An image on which the greedy table misses the seam of least energy.\<close>

definition greedy_image :: image where
  "greedy_image = image_of_rows [[0, 0, 1], [0, 0, 0], [1, 0, 1]]"

lemmas scenario_simps = spot_image_def greedy_image_def image_of_rows_def energy_at_def px_def
  Let_def grey_def brightness_def grad_norm_eq

section \<open>Claims on concrete images\<close>

text \<open>
  C9: \<open>best_seam\<close> does not find the seam of least energy (spec.md section 4.3
  asks for the globally minimal seam).  On \<open>greedy_image\<close> it returns the
  seam \<open>[0, 1, 0]\<close> with total 1, while the seam \<open>[0, 1, 1]\<close> is valid and
  has a smaller summed energy.
\<close>

theorem greedy_not_optimal:
  "best_seam greedy_image = Some (Inr (Fin 1, [0, 1, 0]))
   \<and> valid_seam 3 3 [0, 1, 1]
   \<and> seam_energy (energy_at greedy_image) [0, 1, 1] < seam_energy (energy_at greedy_image) [0, 1, 0]"
proof -
  have run: "best_seam greedy_image = Some (Inr (Fin 1, [0, 1, 0]))"
    using sqrt_half_bounds
    by (simp add: best_seam_eq scenario_simps wf_matrix_def uint_size_def seam_ref_def pick_def
        dp_val_def step_dir_def next_col_def upt_rec)
  have "valid_seam 3 3 [0, 1, 1]" by (simp add: valid_seam_def)
  moreover have "seam_energy (energy_at greedy_image) [0, 1, 1]
                 < seam_energy (energy_at greedy_image) [0, 1, 0]"
    by (simp add: scenario_simps seam_energy_def upt_rec)
  ultimately show ?thesis using run by blast
qed

text \<open>
  C10: the spot scenario of spec.md section 8.  The energy of the white centre is
  0, below that of its upper neighbour (the spec says it is maximal); the seam
  \<open>[0, 1, 0]\<close> of total 0 runs through the centre, and carving it removes the
  white pixel and leaves a black 2 x 3 image.
\<close>

theorem spot_scenario:
  "energy_at spot_image 1 1 = 0 \<and> energy_at spot_image 1 0 = sqrt (1 / 2)
   \<and> best_seam spot_image = Some (Inr (0, [0, 1, 0]))
   \<and> carve spot_image = Some (Inr (Image_make 2 3))"
proof -
  have wf: "wf_matrix spot_image"
    by (simp add: spot_image_def image_of_rows_def wf_matrix_def uint_size_def)
  have run: "best_seam spot_image = Some (Inr (0, [0, 1, 0]))"
    by (simp add: best_seam_eq scenario_simps wf_matrix_def uint_size_def seam_ref_def pick_def
        dp_val_def step_dir_def next_col_def upt_rec)
  have "carve spot_image = Some (Inr (remove_seam spot_image [0, 1, 0]))"
    by (rule carve_eq [OF wf _ run]) (simp_all add: spot_image_def image_of_rows_def valid_seam_def)
  also have "remove_seam spot_image [0, 1, 0] = Image_make 2 3"
  proof -
    have "replicate 6 black = [black, black, black, black, black, black]"
      by (simp add: numeral_eq_Suc)
    then show ?thesis
      by (simp add: remove_seam_def tabulate_def rows_def upt_rec spot_image_def image_of_rows_def
          px_def grey_def Image_make_def new_matrix_def black_def uint_size_def)
  qed
  finally show ?thesis using run by (simp add: scenario_simps)
qed

text \<open>
  C11: an image of one colour (spec.md section 8) has energy 0 everywhere, and
  \<open>best_seam\<close> returns total 0 with a valid seam, whatever its size.
\<close>

theorem uniform_image_seam:
  assumes "0 < wd" "0 < ht" "wd * ht < uint_size"
  shows "energy (uniform_image wd ht c) = Inr (tabulate wd ht (\<lambda>x y. 0))
         \<and> (\<exists>s. best_seam (uniform_image wd ht c) = Some (Inr (0, s)) \<and> valid_seam wd ht s)"
proof -
  let ?img = "uniform_image wd ht c"
  let ?T = "dp_val wd (energy_at ?img)"
  have wf: "wf_matrix ?img" using assms(3) by simp
  have "energy ?img = Inr (tabulate wd ht (energy_at ?img))" using energy_eq [OF wf] by simp
  also have "tabulate wd ht (energy_at ?img) = tabulate wd ht (\<lambda>x y. 0)"
    by (rule tabulate_cong) (rule energy_at_uniform)
  finally have E: "energy ?img = Inr (tabulate wd ht (\<lambda>x y. 0))" .
  obtain x where x: "x < wd" and eq: "best_seam ?img =
      Some (Inr (path_cost ?T x (ht - 1), rev (trail ?T x (ht - 1))))"
    using best_seam_result [of ?img] wf assms by auto
  have v: "valid_seam wd ht (rev (trail ?T x (ht - 1)))" using x assms(2) by (rule valid_seam_trail)
  have "path_cost ?T x (ht - 1) = 0"
    using path_cost_closed [OF x] seam_energy_zero [OF v] x assms(2) by (simp add: energy_at_uniform)
  then show ?thesis using E eq v by auto
qed

theorem uniform_image_seam_witness:
  "energy (uniform_image 3 2 (grey (1/3))) = Inr (tabulate 3 2 (\<lambda>x y. 0))
   \<and> (\<exists>s. best_seam (uniform_image 3 2 (grey (1/3))) = Some (Inr (0, s)) \<and> valid_seam 3 2 s)"
  using uniform_image_seam [of 3 2 "grey (1/3)"] by (simp add: uint_size_def)

end
